theory Spec2Isabelle
  imports Complex_Main "HOL-Library.Word" "HOL-Library.Monad_Syntax" "HOL-Library.Log_Nat"
begin

unbundle bit_operations_syntax

section \<open>Data model\<close>

text \<open>
  The three programs (\<^verbatim>\<open>fluid.c\<close>, \<^verbatim>\<open>gridfluid.c\<close>, \<^verbatim>\<open>realfluid.c\<close>) share one grid
  structure:
  \<^verbatim>\<open>
  typedef struct { float *current; float *previous; float damping; } FluidGrid;
  \<close>
  The two buffers are separate \<^verbatim>\<open>calloc\<close> blocks of \<^verbatim>\<open>GRID_WIDTH * GRID_HEIGHT\<close> floats,
  addressed by the flat index \<^verbatim>\<open>y * GRID_WIDTH + x\<close>. A buffer is modelled as the list of
  its cells in address order. The macros \<^verbatim>\<open>GRID_WIDTH\<close> and \<^verbatim>\<open>GRID_HEIGHT\<close> differ between
  the three files (400 by 300, 800 by 600, 1200 by 800); every function below takes them as
  its first arguments \<open>W\<close> and \<open>H\<close>.

  In the grid and in the injections, C \<^verbatim>\<open>float\<close> values are modelled as \<open>real\<close>: rounding,
  infinities and NaN are not represented, arithmetic is exact, \<^verbatim>\<open>sqrtf\<close> and \<^verbatim>\<open>cosf\<close> are
  \<open>sqrt\<close> and \<open>cos\<close>. The colour mappers, whose property is about large magnitudes and
  overflow, are modelled in binary32 arithmetic instead (section on single-precision
  arithmetic below). C \<^verbatim>\<open>int\<close> values (coordinates, loop counters, flat indices) are
  modelled as \<open>int\<close>; in the grid and in the injections overflow of \<^verbatim>\<open>int\<close> arithmetic is
  not represented. A failing \<^verbatim>\<open>calloc\<close> is not represented either.

  A read or write through a buffer pointer at an index outside the allocated block is
  undefined behaviour in C; the model makes it the value \<open>None\<close>, so that a result
  \<open>Some f\<close> says that every access of the call was inside its buffer.
\<close>

type_synonym buffer = "real list"

record FluidGrid =
  current :: buffer
  previous :: buffer
  damping :: real

definition rd :: "'a list \<Rightarrow> int \<Rightarrow> 'a option" where
  "rd b i = (if 0 \<le> i \<and> i < int (length b) then Some (b ! nat i) else None)"

definition wr :: "'a list \<Rightarrow> int \<Rightarrow> 'a \<Rightarrow> 'a list option" where
  "wr b i v = (if 0 \<le> i \<and> i < int (length b) then Some (b[nat i := v]) else None)"

text \<open>
  A counted \<^verbatim>\<open>for\<close> loop over the values \<open>xs\<close> of its index, threading the state and
  stopping at the first faulting iteration.
\<close>

fun for_loop :: "'i list \<Rightarrow> ('i \<Rightarrow> 's \<Rightarrow> 's option) \<Rightarrow> 's \<Rightarrow> 's option" where
  "for_loop [] body s = Some s"
| "for_loop (i # is) body s =
     (case body i s of None \<Rightarrow> None | Some s' \<Rightarrow> for_loop is body s')"

text \<open>Observation of one cell of a buffer at grid coordinates.\<close>

definition cell :: "int \<Rightarrow> buffer \<Rightarrow> int \<Rightarrow> int \<Rightarrow> real" where
  "cell W b x y = b ! nat (y * W + x)"

definition in_grid :: "int \<Rightarrow> int \<Rightarrow> int \<Rightarrow> int \<Rightarrow> bool" where
  "in_grid W H x y \<longleftrightarrow> 0 \<le> x \<and> x < W \<and> 0 \<le> y \<and> y < H"

definition interior :: "int \<Rightarrow> int \<Rightarrow> int \<Rightarrow> int \<Rightarrow> bool" where
  "interior W H x y \<longleftrightarrow> 1 \<le> x \<and> x \<le> W - 2 \<and> 1 \<le> y \<and> y \<le> H - 2"

definition border :: "int \<Rightarrow> int \<Rightarrow> int \<Rightarrow> int \<Rightarrow> bool" where
  "border W H x y \<longleftrightarrow> in_grid W H x y \<and> (x = 0 \<or> x = W - 1 \<or> y = 0 \<or> y = H - 1)"

definition well_sized :: "int \<Rightarrow> int \<Rightarrow> FluidGrid \<Rightarrow> bool" where
  "well_sized W H fluid \<longleftrightarrow>
     length (current fluid) = nat (W * H) \<and> length (previous fluid) = nat (W * H)"

section \<open>Grid operations\<close>

text \<open>
  \<^verbatim>\<open>init_fluid\<close> (all three files): both buffers zero-filled by \<^verbatim>\<open>calloc\<close>, damping
  \<^verbatim>\<open>0.99f\<close>.
\<close>

definition init_fluid :: "int \<Rightarrow> int \<Rightarrow> FluidGrid" where
  "init_fluid W H =
     \<lparr> current = replicate (nat (W * H)) 0,
       previous = replicate (nat (W * H)) 0,
       damping = 0.99 \<rparr>"

text \<open>
  \<^verbatim>\<open>update_fluid\<close>, \<^verbatim>\<open>gridfluid.c\<close> lines 33-60 (\<^verbatim>\<open>fluid.c\<close> lines 29-55 are the same
  text). The body of the inner loop:
  \<^verbatim>\<open>
  int idx = y * GRID_WIDTH + x;
  float laplacian = previous[idx - 1] + previous[idx + 1]
                  + previous[idx - GRID_WIDTH] + previous[idx + GRID_WIDTH]
                  - 4.0f * previous[idx];
  current[idx] = 2.0f * previous[idx] - current[idx] + laplacian * 0.25f;
  current[idx] *= damping;
  \<close>
\<close>

definition update_cell :: "int \<Rightarrow> int \<Rightarrow> int \<Rightarrow> FluidGrid \<Rightarrow> FluidGrid option" where
  "update_cell W y x fluid = do {
     let idx = y * W + x;
     l \<leftarrow> rd (previous fluid) (idx - 1);
     r \<leftarrow> rd (previous fluid) (idx + 1);
     u \<leftarrow> rd (previous fluid) (idx - W);
     d \<leftarrow> rd (previous fluid) (idx + W);
     p \<leftarrow> rd (previous fluid) idx;
     let laplacian = l + r + u + d - 4 * p;
     c \<leftarrow> rd (current fluid) idx;
     cur1 \<leftarrow> wr (current fluid) idx (2 * p - c + laplacian * 0.25);
     c1 \<leftarrow> rd cur1 idx;
     cur2 \<leftarrow> wr cur1 idx (c1 * damping fluid);
     Some (fluid\<lparr>current := cur2\<rparr>)
   }"

text \<open>The two nested loops of \<^verbatim>\<open>update_fluid\<close>, before the buffers are exchanged.\<close>

definition update_fluid_cells :: "int \<Rightarrow> int \<Rightarrow> FluidGrid \<Rightarrow> FluidGrid option" where
  "update_fluid_cells W H fluid =
     for_loop [1 .. H - 2] (\<lambda>y. for_loop [1 .. W - 2] (\<lambda>x. update_cell W y x)) fluid"

text \<open>
  The exchange of the two pointers that ends \<^verbatim>\<open>update_fluid\<close>:
  \<^verbatim>\<open>
  float *temp = fluid->current;
  fluid->current = fluid->previous;
  fluid->previous = temp;
  \<close>
\<close>

definition swap_buffers :: "FluidGrid \<Rightarrow> FluidGrid" where
  "swap_buffers fluid =
     (let temp = current fluid in fluid\<lparr>current := previous fluid, previous := temp\<rparr>)"

definition update_fluid :: "int \<Rightarrow> int \<Rightarrow> FluidGrid \<Rightarrow> FluidGrid option" where
  "update_fluid W H fluid = do {
     fluid' \<leftarrow> update_fluid_cells W H fluid;
     Some (swap_buffers fluid')
   }"

text \<open>
  \<^verbatim>\<open>update_fluid\<close> of \<^verbatim>\<open>realfluid.c\<close> (lines 68-95) writes the cell once:
  \<^verbatim>\<open>
  current[idx] = (2.0f * previous[idx] - current[idx] + laplacian * 0.25f) * damping;
  \<close>
\<close>

definition real_update_cell :: "int \<Rightarrow> int \<Rightarrow> int \<Rightarrow> FluidGrid \<Rightarrow> FluidGrid option" where
  "real_update_cell W y x fluid = do {
     let row_start = y * W;
     let idx = row_start + x;
     l \<leftarrow> rd (previous fluid) (idx - 1);
     r \<leftarrow> rd (previous fluid) (idx + 1);
     u \<leftarrow> rd (previous fluid) (idx - W);
     d \<leftarrow> rd (previous fluid) (idx + W);
     p \<leftarrow> rd (previous fluid) idx;
     let laplacian = l + r + u + d - 4 * p;
     c \<leftarrow> rd (current fluid) idx;
     cur1 \<leftarrow> wr (current fluid) idx ((2 * p - c + laplacian * 0.25) * damping fluid);
     Some (fluid\<lparr>current := cur1\<rparr>)
   }"

definition real_update_fluid_cells :: "int \<Rightarrow> int \<Rightarrow> FluidGrid \<Rightarrow> FluidGrid option" where
  "real_update_fluid_cells W H fluid =
     for_loop [1 .. H - 2] (\<lambda>y. for_loop [1 .. W - 2] (\<lambda>x. real_update_cell W y x)) fluid"

definition real_update_fluid :: "int \<Rightarrow> int \<Rightarrow> FluidGrid \<Rightarrow> FluidGrid option" where
  "real_update_fluid W H fluid = do {
     fluid' \<leftarrow> real_update_fluid_cells W H fluid;
     Some (swap_buffers fluid')
   }"

text \<open>
  \<^verbatim>\<open>add_disturbance\<close>, \<^verbatim>\<open>gridfluid.c\<close> lines 62-67 and \<^verbatim>\<open>realfluid.c\<close> lines 97-102
  (the narrow point injection):
  \<^verbatim>\<open>
  if (x >= 1 && x < GRID_WIDTH - 1 && y >= 1 && y < GRID_HEIGHT - 1) {
      int idx = y * GRID_WIDTH + x;
      fluid->previous[idx] += intensity;
  }
  \<close>
\<close>

definition add_disturbance ::
  "int \<Rightarrow> int \<Rightarrow> FluidGrid \<Rightarrow> int \<Rightarrow> int \<Rightarrow> real \<Rightarrow> FluidGrid option" where
  "add_disturbance W H fluid x y intensity =
     (if x \<ge> 1 \<and> x < W - 1 \<and> y \<ge> 1 \<and> y < H - 1 then do {
        let idx = y * W + x;
        v \<leftarrow> rd (previous fluid) idx;
        p \<leftarrow> wr (previous fluid) idx (v + intensity);
        Some (fluid\<lparr>previous := p\<rparr>)
      } else Some fluid)"

text \<open>
  \<^verbatim>\<open>add_disturbance\<close> of \<^verbatim>\<open>fluid.c\<close>, lines 57-71 (the wide point injection): after the
  centre, the eight neighbours are written with no check of their own.
  \<^verbatim>\<open>
  for (int dy = -1; dy <= 1; dy++)
      for (int dx = -1; dx <= 1; dx++) {
          if (dx == 0 && dy == 0) continue;
          int nidx = (y + dy) * GRID_WIDTH + (x + dx);
          fluid->previous[nidx] += intensity * 0.5f;
      }
  \<close>
\<close>

definition fluid_add_neighbour ::
  "int \<Rightarrow> int \<Rightarrow> int \<Rightarrow> real \<Rightarrow> int \<Rightarrow> int \<Rightarrow> FluidGrid \<Rightarrow> FluidGrid option" where
  "fluid_add_neighbour W x y intensity dy dx fluid =
     (if dx = 0 \<and> dy = 0 then Some fluid
      else do {
        let nidx = (y + dy) * W + (x + dx);
        v \<leftarrow> rd (previous fluid) nidx;
        p \<leftarrow> wr (previous fluid) nidx (v + intensity * 0.5);
        Some (fluid\<lparr>previous := p\<rparr>)
      })"

definition fluid_add_disturbance ::
  "int \<Rightarrow> int \<Rightarrow> FluidGrid \<Rightarrow> int \<Rightarrow> int \<Rightarrow> real \<Rightarrow> FluidGrid option" where
  "fluid_add_disturbance W H fluid x y intensity =
     (if x \<ge> 1 \<and> x < W - 1 \<and> y \<ge> 1 \<and> y < H - 1 then do {
        let idx = y * W + x;
        v \<leftarrow> rd (previous fluid) idx;
        p \<leftarrow> wr (previous fluid) idx (v + intensity);
        for_loop [-1 .. 1]
          (\<lambda>dy. for_loop [-1 .. 1] (\<lambda>dx. fluid_add_neighbour W x y intensity dy dx))
          (fluid\<lparr>previous := p\<rparr>)
      } else Some fluid)"

text \<open>
  A C conversion from \<^verbatim>\<open>float\<close> to an integer type discards the fractional part
  (truncation towards zero).
\<close>

definition c_trunc :: "real \<Rightarrow> int" where
  "c_trunc r = (if 0 \<le> r then \<lfloor>r\<rfloor> else \<lceil>r\<rceil>)"

text \<open>
  \<^verbatim>\<open>add_continuous_wave\<close>, \<^verbatim>\<open>gridfluid.c\<close> lines 69-103. The inner loop variables
  \<^verbatim>\<open>dx\<close>, \<^verbatim>\<open>dy\<close> of the source shadow the outer floats of the same name; they are
  \<open>ox\<close>, \<open>oy\<close> here.
  \<^verbatim>\<open>
  float dx = x2 - x1;  float dy = y2 - y1;
  float distance = sqrtf(dx*dx + dy*dy);
  if (distance < 1.0f) { add_disturbance(fluid, x1, y1, intensity); return; }
  int steps = (int)(distance * 2.0f) + 1;
  for (int i = 0; i <= steps; i++) {
      float t = (float)i / (float)steps;
      int cx = (int)(x1 + dx * t);  int cy = (int)(y1 + dy * t);
      float current_intensity = intensity * (1.0f - t * 0.3f);
      for (int dy = -2; dy <= 2; dy++)
          for (int dx = -2; dx <= 2; dx++) {
              float dist = sqrtf(dx*dx + dy*dy);
              if (dist <= 2.0f) {
                  float falloff = 1.0f - (dist / 2.0f);
                  add_disturbance(fluid, cx + dx, cy + dy, current_intensity * falloff * 0.5f);
              }
          }
  }
  \<close>
\<close>

definition wave_area_cell ::
  "int \<Rightarrow> int \<Rightarrow> int \<Rightarrow> int \<Rightarrow> real \<Rightarrow> int \<Rightarrow> int \<Rightarrow> FluidGrid \<Rightarrow> FluidGrid option" where
  "wave_area_cell W H cx cy current_intensity oy ox fluid =
     (let dist = sqrt (real_of_int (ox * ox + oy * oy)) in
      if dist \<le> 2 then
        (let falloff = 1 - dist / 2 in
         add_disturbance W H fluid (cx + ox) (cy + oy) (current_intensity * falloff * 0.5))
      else Some fluid)"

definition wave_step ::
  "int \<Rightarrow> int \<Rightarrow> int \<Rightarrow> int \<Rightarrow> real \<Rightarrow> real \<Rightarrow> real \<Rightarrow> int \<Rightarrow> int \<Rightarrow> FluidGrid
     \<Rightarrow> FluidGrid option" where
  "wave_step W H x1 y1 dx dy intensity steps i fluid =
     (let t = real_of_int i / real_of_int steps;
          cx = c_trunc (real_of_int x1 + dx * t);
          cy = c_trunc (real_of_int y1 + dy * t);
          current_intensity = intensity * (1 - t * 0.3)
      in for_loop [-2 .. 2]
           (\<lambda>oy. for_loop [-2 .. 2] (\<lambda>ox. wave_area_cell W H cx cy current_intensity oy ox))
           fluid)"

definition add_continuous_wave ::
  "int \<Rightarrow> int \<Rightarrow> FluidGrid \<Rightarrow> int \<Rightarrow> int \<Rightarrow> int \<Rightarrow> int \<Rightarrow> real \<Rightarrow> FluidGrid option" where
  "add_continuous_wave W H fluid x1 y1 x2 y2 intensity =
     (let dx = real_of_int (x2 - x1);
          dy = real_of_int (y2 - y1);
          distance = sqrt (dx * dx + dy * dy)
      in if distance < 1 then add_disturbance W H fluid x1 y1 intensity
         else
           (let steps = c_trunc (distance * 2) + 1
            in for_loop [0 .. steps] (wave_step W H x1 y1 dx dy intensity steps) fluid))"

text \<open>
  \<^verbatim>\<open>add_continuous_wave\<close>, \<^verbatim>\<open>realfluid.c\<close> lines 104-130:
  \<^verbatim>\<open>
  int steps = (int)(distance * 1.5f) + 1;
  float inv_steps = 1.0f / steps;
  for (int i = 0; i <= steps; i++) {
      float t = i * inv_steps;
      int cx = (int)(x1 + dx * t);  int cy = (int)(y1 + dy * t);
      float current_intensity = intensity * (1.0f - t * 0.3f);
      if (cx >= 2 && cx < GRID_WIDTH - 2 && cy >= 2 && cy < GRID_HEIGHT - 2)
          add_disturbance(fluid, cx, cy, current_intensity);
  }
  \<close>
\<close>

definition real_wave_step ::
  "int \<Rightarrow> int \<Rightarrow> int \<Rightarrow> int \<Rightarrow> real \<Rightarrow> real \<Rightarrow> real \<Rightarrow> real \<Rightarrow> int \<Rightarrow> FluidGrid
     \<Rightarrow> FluidGrid option" where
  "real_wave_step W H x1 y1 dx dy intensity inv_steps i fluid =
     (let t = real_of_int i * inv_steps;
          cx = c_trunc (real_of_int x1 + dx * t);
          cy = c_trunc (real_of_int y1 + dy * t);
          current_intensity = intensity * (1 - t * 0.3)
      in if cx \<ge> 2 \<and> cx < W - 2 \<and> cy \<ge> 2 \<and> cy < H - 2
         then add_disturbance W H fluid cx cy current_intensity
         else Some fluid)"

definition real_add_continuous_wave ::
  "int \<Rightarrow> int \<Rightarrow> FluidGrid \<Rightarrow> int \<Rightarrow> int \<Rightarrow> int \<Rightarrow> int \<Rightarrow> real \<Rightarrow> FluidGrid option" where
  "real_add_continuous_wave W H fluid x1 y1 x2 y2 intensity =
     (let dx = real_of_int (x2 - x1);
          dy = real_of_int (y2 - y1);
          distance = sqrt (dx * dx + dy * dy)
      in if distance < 1 then add_disturbance W H fluid x1 y1 intensity
         else
           (let steps = c_trunc (distance * 1.5) + 1;
                inv_steps = 1 / real_of_int steps
            in for_loop [0 .. steps] (real_wave_step W H x1 y1 dx dy intensity inv_steps) fluid))"

text \<open>
  \<^verbatim>\<open>add_velocity_field\<close>, \<^verbatim>\<open>gridfluid.c\<close> lines 105-120:
  \<^verbatim>\<open>
  if (x >= 2 && x < GRID_WIDTH - 2 && y >= 2 && y < GRID_HEIGHT - 2)
      for (int dy = -3; dy <= 3; dy++)
          for (int dx = -3; dx <= 3; dx++) {
              float dist = sqrtf(dx*dx + dy*dy);
              if (dist <= 3.0f) {
                  float wave = cosf(dist * 0.8f) * (1.0f - dist/3.0f);
                  add_disturbance(fluid, x + dx, y + dy, intensity * wave);
              }
          }
  \<close>
\<close>

definition velocity_cell ::
  "int \<Rightarrow> int \<Rightarrow> int \<Rightarrow> int \<Rightarrow> real \<Rightarrow> int \<Rightarrow> int \<Rightarrow> FluidGrid \<Rightarrow> FluidGrid option" where
  "velocity_cell W H x y intensity dy dx fluid =
     (let dist = sqrt (real_of_int (dx * dx + dy * dy)) in
      if dist \<le> 3 then
        (let wave = cos (dist * 0.8) * (1 - dist / 3) in
         add_disturbance W H fluid (x + dx) (y + dy) (intensity * wave))
      else Some fluid)"

definition add_velocity_field ::
  "int \<Rightarrow> int \<Rightarrow> FluidGrid \<Rightarrow> int \<Rightarrow> int \<Rightarrow> real \<Rightarrow> FluidGrid option" where
  "add_velocity_field W H fluid x y intensity =
     (if x \<ge> 2 \<and> x < W - 2 \<and> y \<ge> 2 \<and> y < H - 2 then
        for_loop [-3 .. 3]
          (\<lambda>dy. for_loop [-3 .. 3] (\<lambda>dx. velocity_cell W H x y intensity dy dx)) fluid
      else Some fluid)"

section \<open>Single-precision arithmetic\<close>

text \<open>
  A C \<^verbatim>\<open>float\<close> in the colour mappers is an IEEE 754 binary32 value: a finite number, an
  infinity or a NaN. \<open>Finite v\<close> stands for the representable number \<open>v\<close>; the two zeros
  are one value, since the mappers never divide and no other operation they use tells
  \<^verbatim>\<open>-0.0f\<close> from \<^verbatim>\<open>0.0f\<close>. Every arithmetic operation returns the exact result rounded to
  the nearest representable number, ties to the even significand, and an infinity when the
  rounded magnitude exceeds the largest finite float; each operation is rounded on its own
  (\<^verbatim>\<open>FLT_EVAL_METHOD\<close> 0, no fused multiply-add). Floating-point operations never trap.
\<close>

datatype cfloat = Finite real | PInf | NInf | NaN

text \<open>Nearest integer, ties to even.\<close>

definition round_even :: "real \<Rightarrow> int" where
  "round_even q =
     (let f = \<lfloor>q\<rfloor>; d = q - of_int f
      in if d < 1 / 2 then f else if 1 / 2 < d then f + 1 else if even f then f else f + 1)"

text \<open>
  The binary exponent \<open>e\<close> of a number, \<open>2 ^ e \<le> \<bar>x\<bar> < 2 ^ (e + 1)\<close>, and \<open>-126\<close> for zero
  and the subnormal range. \<open>bitlen m\<close> is the number of binary digits of \<open>m\<close>.
\<close>

definition float_exp :: "real \<Rightarrow> int" where
  "float_exp x = max (bitlen \<lfloor>\<bar>x\<bar> * 2 ^ 126\<rfloor> - 127) (- 126)"

text \<open>
  Rounding to binary32: the spacing of the representable numbers around \<open>x\<close> is
  \<open>2 ^ (e - 23)\<close> (a 24-bit significand); a rounded magnitude of \<open>2 ^ 128\<close> or more is an
  infinity.
\<close>

definition round32 :: "real \<Rightarrow> cfloat" where
  "round32 x =
     (let ulp = 2 powi (float_exp x - 23);
          v = of_int (round_even (x / ulp)) * ulp
      in if 2 ^ 128 \<le> v then PInf else if v \<le> - (2 ^ 128) then NInf else Finite v)"

text \<open>
  A floating constant of the source (\<^verbatim>\<open>0.3f\<close>) and an integer operand converted to
  \<^verbatim>\<open>float\<close> (the \<^verbatim>\<open>255\<close> of \<^verbatim>\<open>r * 255\<close>) are the nearest float.
\<close>

definition f32 :: "real \<Rightarrow> cfloat" where
  "f32 c = round32 c"

fun fneg :: "cfloat \<Rightarrow> cfloat" where
  "fneg (Finite a) = Finite (- a)"
| "fneg PInf = NInf"
| "fneg NInf = PInf"
| "fneg NaN = NaN"

fun fadd :: "cfloat \<Rightarrow> cfloat \<Rightarrow> cfloat" where
  "fadd NaN _ = NaN"
| "fadd _ NaN = NaN"
| "fadd PInf NInf = NaN"
| "fadd NInf PInf = NaN"
| "fadd PInf _ = PInf"
| "fadd _ PInf = PInf"
| "fadd NInf _ = NInf"
| "fadd _ NInf = NInf"
| "fadd (Finite a) (Finite b) = round32 (a + b)"

definition fsub :: "cfloat \<Rightarrow> cfloat \<Rightarrow> cfloat" where
  "fsub a b = fadd a (fneg b)"

fun fsign :: "cfloat \<Rightarrow> real" where
  "fsign (Finite a) = sgn a"
| "fsign PInf = 1"
| "fsign NInf = - 1"
| "fsign NaN = 0"

text \<open>A product with an infinite factor is NaN when the other factor is zero.\<close>

fun fmul :: "cfloat \<Rightarrow> cfloat \<Rightarrow> cfloat" where
  "fmul NaN _ = NaN"
| "fmul _ NaN = NaN"
| "fmul (Finite a) (Finite b) = round32 (a * b)"
| "fmul a b =
     (let s = fsign a * fsign b in if s = 0 then NaN else if 0 < s then PInf else NInf)"

fun fabsf :: "cfloat \<Rightarrow> cfloat" where
  "fabsf (Finite a) = Finite \<bar>a\<bar>"
| "fabsf PInf = PInf"
| "fabsf NInf = PInf"
| "fabsf NaN = NaN"

text \<open>\<^verbatim>\<open>fmaxf\<close> and \<^verbatim>\<open>fminf\<close> return the other argument when one is a NaN.\<close>

fun fmaxf :: "cfloat \<Rightarrow> cfloat \<Rightarrow> cfloat" where
  "fmaxf NaN b = b"
| "fmaxf a NaN = a"
| "fmaxf PInf _ = PInf"
| "fmaxf _ PInf = PInf"
| "fmaxf NInf b = b"
| "fmaxf a NInf = a"
| "fmaxf (Finite a) (Finite b) = Finite (max a b)"

fun fminf :: "cfloat \<Rightarrow> cfloat \<Rightarrow> cfloat" where
  "fminf NaN b = b"
| "fminf a NaN = a"
| "fminf NInf _ = NInf"
| "fminf _ NInf = NInf"
| "fminf PInf b = b"
| "fminf a PInf = a"
| "fminf (Finite a) (Finite b) = Finite (min a b)"

text \<open>The comparison \<^verbatim>\<open>a < b\<close>; false when either side is a NaN.\<close>

fun flt :: "cfloat \<Rightarrow> cfloat \<Rightarrow> bool" where
  "flt NaN _ = False"
| "flt _ NaN = False"
| "flt PInf _ = False"
| "flt _ NInf = False"
| "flt NInf _ = True"
| "flt _ PInf = True"
| "flt (Finite a) (Finite b) \<longleftrightarrow> a < b"

text \<open>
  Converting a \<^verbatim>\<open>float\<close> to an unsigned integer type truncates; the behaviour is undefined
  (\<open>None\<close>) for a NaN, an infinity and a value whose truncation the type cannot hold.
\<close>

definition to_uint32 :: "cfloat \<Rightarrow> 32 word option" where
  "to_uint32 f =
     (case f of
        Finite v \<Rightarrow> if - 1 < v \<and> v < 2 ^ 32 then Some (word_of_int (c_trunc v)) else None
      | _ \<Rightarrow> None)"

definition to_uint8 :: "cfloat \<Rightarrow> 8 word option" where
  "to_uint8 f =
     (case f of
        Finite v \<Rightarrow> if - 1 < v \<and> v < 2 ^ 8 then Some (word_of_int (c_trunc v)) else None
      | _ \<Rightarrow> None)"


section \<open>Colour mapping\<close>

text \<open>
  \<^verbatim>\<open>water_color\<close>, \<^verbatim>\<open>realfluid.c\<close> lines 151-181. \<open>water_rgb\<close> is lines 153-175, the
  three clamped channel intensities:
  \<^verbatim>\<open>
  float base_r = 0.1f;  float base_g = 0.2f;  float base_b = 0.4f;
  float wave_intensity = fabsf(height) * 2.0f;
  float foam = fmaxf(0.0f, height - 0.3f) * 3.0f;
  foam = fminf(foam, 1.0f);
  float light = fmaxf(0.0f, height) * 1.5f;
  light = fminf(light, 0.8f);
  float r = base_r + foam + light * 0.3f;
  float g = base_g + foam * 0.8f + light * 0.4f;
  float b = base_b + foam + light * 0.2f;
  r = fminf(fmaxf(r, 0.0f), 1.0f);
  g = fminf(fmaxf(g, 0.0f), 1.0f);
  b = fminf(fmaxf(b, 0.0f), 1.0f);
  \<close>
  and \<open>water_color\<close> is the return statement
  \<^verbatim>\<open>
  return ((uint32_t)(r * 255) << 16) | ((uint32_t)(g * 255) << 8)
       | ((uint32_t)(b * 255)) | 0xFF000000;
  \<close>
  whose shifts and joins are on \<^verbatim>\<open>uint32_t\<close>.
\<close>

definition water_rgb :: "cfloat \<Rightarrow> cfloat \<times> cfloat \<times> cfloat" where
  "water_rgb height =
     (let base_r = f32 0.1; base_g = f32 0.2; base_b = f32 0.4;
          wave_intensity = fmul (fabsf height) (f32 2);
          foam = fmul (fmaxf (f32 0) (fsub height (f32 0.3))) (f32 3);
          foam = fminf foam (f32 1);
          light = fmul (fmaxf (f32 0) height) (f32 1.5);
          light = fminf light (f32 0.8);
          r = fadd (fadd base_r foam) (fmul light (f32 0.3));
          g = fadd (fadd base_g (fmul foam (f32 0.8))) (fmul light (f32 0.4));
          b = fadd (fadd base_b foam) (fmul light (f32 0.2));
          r = fminf (fmaxf r (f32 0)) (f32 1);
          g = fminf (fmaxf g (f32 0)) (f32 1);
          b = fminf (fmaxf b (f32 0)) (f32 1)
      in (r, g, b))"

definition water_color :: "cfloat \<Rightarrow> cfloat \<Rightarrow> cfloat \<Rightarrow> 32 word \<Rightarrow> 32 word option" where
  "water_color height x y time =
     (case water_rgb height of (r, g, b) \<Rightarrow> do {
        rw \<leftarrow> to_uint32 (fmul r (f32 255));
        gw \<leftarrow> to_uint32 (fmul g (f32 255));
        bw \<leftarrow> to_uint32 (fmul b (f32 255));
        Some (push_bit 16 rw OR push_bit 8 gw OR bw OR 0xFF000000)
      })"

text \<open>
  \<^verbatim>\<open>bw_water_color\<close>, \<^verbatim>\<open>realfluid.c\<close> lines 183-198. \<open>bw_intensity\<close> is lines 185-193:
  \<^verbatim>\<open>
  float intensity = fabsf(height) * 3.0f;
  if (height > 0.2f) {
      float foam = (height - 0.2f) * 4.0f;
      intensity -= foam * 0.5f;
  }
  intensity = fminf(fmaxf(intensity, 0.0f), 1.0f);
  \<close>
  \<open>bw_grey\<close> is line 195,
  \<^verbatim>\<open>
  uint8_t value = (uint8_t)((1.0f - intensity) * 255);
  \<close>
  and \<open>bw_water_color\<close> the return statement
  \<^verbatim>\<open>
  return (0xFF << 24) | (value << 16) | (value << 8) | value;
  \<close>
  in which \<^verbatim>\<open>0xFF\<close> is an \<^verbatim>\<open>int\<close> and \<^verbatim>\<open>value\<close> is promoted to \<^verbatim>\<open>int\<close>, so that the three
  shifts and the joins are on \<^verbatim>\<open>int\<close>; the result is converted to \<^verbatim>\<open>uint32_t\<close>.
\<close>

definition bw_intensity :: "cfloat \<Rightarrow> cfloat" where
  "bw_intensity height =
     (let intensity = fmul (fabsf height) (f32 3);
          intensity = (if flt (f32 0.2) height
                       then let foam = fmul (fsub height (f32 0.2)) (f32 4)
                            in fsub intensity (fmul foam (f32 0.5))
                       else intensity)
      in fminf (fmaxf intensity (f32 0)) (f32 1))"

definition bw_grey :: "cfloat \<Rightarrow> 8 word option" where
  "bw_grey height = to_uint8 (fmul (fsub (f32 1) (bw_intensity height)) (f32 255))"


text \<open>The four bytes of an ARGB8888 pixel (\<^verbatim>\<open>SDL_PIXELFORMAT_ARGB8888\<close>).\<close>

definition alpha_of :: "32 word \<Rightarrow> 32 word" where
  "alpha_of w = drop_bit 24 w"

definition red_of :: "32 word \<Rightarrow> 32 word" where
  "red_of w = take_bit 8 (drop_bit 16 w)"

definition green_of :: "32 word \<Rightarrow> 32 word" where
  "green_of w = take_bit 8 (drop_bit 8 w)"

definition blue_of :: "32 word \<Rightarrow> 32 word" where
  "blue_of w = take_bit 8 w"

text \<open>
  \<^verbatim>\<open>update_fluid_texture\<close>, \<^verbatim>\<open>realfluid.c\<close> lines 200-209, the rendering pass that the
  main loop runs right after \<^verbatim>\<open>update_fluid\<close>:
  \<^verbatim>\<open>
  for (int y = 0; y < GRID_HEIGHT; y++)
      for (int x = 0; x < GRID_WIDTH; x++) {
          int idx = y * GRID_WIDTH + x;
          float height = fluid->current[idx];
          frenderer->pixels[idx] = water_color(height, x, y, time);
      }
  \<close>
  The height is a cell of the grid, a real number in this model, and enters the colour
  mapper as the finite float of that value.
\<close>

definition texture_cell ::
  "int \<Rightarrow> FluidGrid \<Rightarrow> 32 word \<Rightarrow> int \<Rightarrow> int \<Rightarrow> 32 word list \<Rightarrow> 32 word list option" where
  "texture_cell W fluid time y x pixels = do {
     let idx = y * W + x;
     height \<leftarrow> rd (current fluid) idx;
     colour \<leftarrow> water_color (Finite height) (f32 (real_of_int x)) (f32 (real_of_int y)) time;
     wr pixels idx colour
   }"

definition update_fluid_texture ::
  "int \<Rightarrow> int \<Rightarrow> 32 word list \<Rightarrow> FluidGrid \<Rightarrow> 32 word \<Rightarrow> 32 word list option" where
  "update_fluid_texture W H pixels fluid time =
     for_loop [0 .. H - 1] (\<lambda>y. for_loop [0 .. W - 1] (\<lambda>x. texture_cell W fluid time y x)) pixels"

section \<open>Sequences of calls\<close>

text \<open>
  What the event loop of \<^verbatim>\<open>gridfluid.c\<close> can do to the grid: one \<^verbatim>\<open>update_fluid\<close> per
  frame, and the three injections on pointer and key events. A run starts from the grid
  that \<^verbatim>\<open>init_fluid\<close> returns.
\<close>

datatype action =
    Step
  | Point int int real
  | Line int int int int real
  | Radial int int real

fun perform :: "int \<Rightarrow> int \<Rightarrow> action \<Rightarrow> FluidGrid \<Rightarrow> FluidGrid option" where
  "perform W H Step fluid = update_fluid W H fluid"
| "perform W H (Point x y intensity) fluid = add_disturbance W H fluid x y intensity"
| "perform W H (Line x1 y1 x2 y2 intensity) fluid =
     add_continuous_wave W H fluid x1 y1 x2 y2 intensity"
| "perform W H (Radial x y intensity) fluid = add_velocity_field W H fluid x y intensity"

definition run :: "int \<Rightarrow> int \<Rightarrow> action list \<Rightarrow> FluidGrid option" where
  "run W H actions = for_loop actions (perform W H) (init_fluid W H)"

text \<open>
  The end-to-end scenario of the specification: a 10 by 10 grid, one point injection of
  intensity 10 at (5, 5), one step.
\<close>

definition end_to_end :: "FluidGrid option" where
  "end_to_end =
     Option.bind (add_disturbance 10 10 (init_fluid 10 10) 5 5 10) (update_fluid 10 10)"

section \<open>The specification's stencil\<close>

text \<open>
  The value that the specification gives to an interior cell \<open>(x, y)\<close> in one step, as a
  function of the grid before the step:
  \<^verbatim>\<open>
  laplacian = previous[x-1,y] + previous[x+1,y] + previous[x,y-1] + previous[x,y+1]
            - 4*previous[x,y]
  current[x,y] = damping * (2*previous[x,y] - current[x,y] + 0.25*laplacian)
  \<close>
\<close>

definition step_value :: "int \<Rightarrow> FluidGrid \<Rightarrow> int \<Rightarrow> int \<Rightarrow> real" where
  "step_value W fluid x y =
     (let laplacian = cell W (previous fluid) (x - 1) y + cell W (previous fluid) (x + 1) y
                    + cell W (previous fluid) x (y - 1) + cell W (previous fluid) x (y + 1)
                    - 4 * cell W (previous fluid) x y
      in damping fluid
           * (2 * cell W (previous fluid) x y - cell W (current fluid) x y + 0.25 * laplacian))"

text \<open>
  Loop invariant of the stencil loops: \<open>D\<close> is the set of cells \<open>(y, x)\<close> already
  visited, \<open>fluid\<close> the grid before the loops, \<open>s\<close> the grid now.
\<close>

definition stepped :: "int \<Rightarrow> int \<Rightarrow> FluidGrid \<Rightarrow> (int \<times> int) set \<Rightarrow> FluidGrid \<Rightarrow> bool" where
  "stepped W H fluid D s \<longleftrightarrow>
     previous s = previous fluid \<and> damping s = damping fluid
     \<and> length (current s) = length (current fluid)
     \<and> (\<forall>x y. in_grid W H x y \<longrightarrow>
           cell W (current s) x y
             = (if (y, x) \<in> D then step_value W fluid x y else cell W (current fluid) x y))"

text \<open>
  Loop invariant of an injection that walks a square of offsets around \<open>(x, y)\<close>: \<open>D\<close> is
  the set of offsets \<open>(dy, dx)\<close> already visited, \<open>hit\<close> tells which offsets write and
  \<open>amount\<close> what they add to \<open>previous\<close>.
\<close>

definition spread ::
  "int \<Rightarrow> int \<Rightarrow> int \<Rightarrow> int \<Rightarrow> (int \<Rightarrow> int \<Rightarrow> bool) \<Rightarrow> (int \<Rightarrow> int \<Rightarrow> real) \<Rightarrow> FluidGrid
     \<Rightarrow> (int \<times> int) set \<Rightarrow> FluidGrid \<Rightarrow> bool" where
  "spread W H x y hit amount fluid D s \<longleftrightarrow>
     current s = current fluid \<and> damping s = damping fluid
     \<and> length (previous s) = length (previous fluid)
     \<and> (\<forall>cx cy. in_grid W H cx cy \<longrightarrow>
           cell W (previous s) cx cy
             = cell W (previous fluid) cx cy
               + (if (cy - y, cx - x) \<in> D \<and> hit (cy - y) (cx - x)
                  then amount (cy - y) (cx - x) else 0))"

text \<open>Both buffers have the grid's size and hold zero in every border cell.\<close>

definition calm_border :: "int \<Rightarrow> int \<Rightarrow> FluidGrid \<Rightarrow> bool" where
  "calm_border W H fluid \<longleftrightarrow>
     well_sized W H fluid
     \<and> (\<forall>x y. border W H x y \<longrightarrow>
           cell W (current fluid) x y = 0 \<and> cell W (previous fluid) x y = 0)"

section \<open>Index arithmetic\<close>

lemma flat_index_range:
  fixes x y W H :: int
  assumes "0 \<le> x" "x < W" "0 \<le> y" "y < H"
  shows "0 \<le> y * W + x" "y * W + x < W * H"
proof -
  have w: "0 < W" using assms by linarith
  show "0 \<le> y * W + x" using assms w by simp
  have "y * W + x < y * W + W" using assms by simp
  also have "\<dots> = (y + 1) * W" by (simp add: algebra_simps)
  also have "\<dots> \<le> H * W" using assms w by (intro mult_right_mono) auto
  finally show "y * W + x < W * H" by (simp add: mult.commute)
qed

lemma flat_index_inj:
  fixes x y x' y' W :: int
  assumes "0 \<le> x" "x < W" "0 \<le> x'" "x' < W" "y * W + x = y' * W + x'"
  shows "x = x' \<and> y = y'"
proof -
  have m: "(y * W + x) mod W = x" "(y' * W + x') mod W = x'"
    using assms(1-4) by simp_all
  have "(y * W + x) mod W = (y' * W + x') mod W"
    using assms(5) by simp
  then have x: "x = x'" by (simp only: m)
  have d: "(y * W + x) div W = y" "(y' * W + x') div W = y'"
    using assms(1-4) by simp_all
  have "(y * W + x) div W = (y' * W + x') div W"
    using assms(5) by simp
  then have "y = y'" by (simp only: d)
  with x show ?thesis by simp
qed

lemma add_disturbance_outside:
  assumes "\<not> (1 \<le> x \<and> x < W - 1 \<and> 1 \<le> y \<and> y < H - 1)"
  shows "add_disturbance W H fluid x y intensity = Some fluid"
  using assms by (auto simp: add_disturbance_def)

lemma add_disturbance_inside:
  assumes "length (previous fluid) = nat (W * H)"
    and "1 \<le> x" "x < W - 1" "1 \<le> y" "y < H - 1"
  shows "add_disturbance W H fluid x y intensity =
           Some (fluid\<lparr>previous :=
             (previous fluid)[nat (y * W + x) := previous fluid ! nat (y * W + x) + intensity]\<rparr>)"
proof -
  have "0 \<le> y * W + x" "y * W + x < W * H"
    using assms(2-5) by (intro flat_index_range; simp)+
  then show ?thesis
    using assms by (simp add: add_disturbance_def rd_def wr_def Let_def)
qed

section \<open>Loops\<close>

lemma for_loop_append:
  "for_loop (xs @ ys) body s = Option.bind (for_loop xs body s) (for_loop ys body)"
  by (induction xs arbitrary: s) (auto split: option.splits)

lemma for_loop_map:
  "for_loop (map g xs) body s = for_loop xs (\<lambda>i. body (g i)) s"
  by (induction xs arbitrary: s) (auto split: option.splits)

lemma for_loop_nested:
  "for_loop ys (\<lambda>y. for_loop xs (body y)) s
     = for_loop (List.product ys xs) (\<lambda>(y, x). body y x) s"
proof (induction ys arbitrary: s)
  case Nil
  then show ?case by simp
next
  case (Cons y ys)
  show ?case
    by (simp add: for_loop_append for_loop_map Cons.IH split: option.splits)
qed

lemma for_loop_rule:
  assumes "distinct xs" "I D s" "D \<inter> set xs = {}"
    and step: "\<And>i D s. i \<in> set xs \<Longrightarrow> i \<notin> D \<Longrightarrow> I D s
                 \<Longrightarrow> \<exists>s'. body i s = Some s' \<and> I (insert i D) s'"
  shows "\<exists>s'. for_loop xs body s = Some s' \<and> I (D \<union> set xs) s'"
  using assms
proof (induction xs arbitrary: D s)
  case Nil
  then show ?case by simp
next
  case (Cons i xs)
  from Cons.prems have "i \<notin> D" by auto
  with Cons.prems(2,4) obtain s1 where s1: "body i s = Some s1" "I (insert i D) s1"
    by (metis list.set_intros(1))
  have "\<exists>s'. for_loop xs body s1 = Some s' \<and> I (insert i D \<union> set xs) s'"
  proof (rule Cons.IH)
    show "distinct xs" using Cons.prems(1) by simp
    show "I (insert i D) s1" by (rule s1)
    show "insert i D \<inter> set xs = {}" using Cons.prems(1,3) by auto
    show "\<exists>s'. body j s = Some s' \<and> I (insert j E) s'"
      if "j \<in> set xs" "j \<notin> E" "I E s" for j E s
      using that Cons.prems(4) by simp
  qed
  then show ?case using s1 by simp
qed

lemma for_loop_preserves:
  assumes "P s"
    and step: "\<And>i s. i \<in> set xs \<Longrightarrow> P s \<Longrightarrow> \<exists>s'. body i s = Some s' \<and> P s'"
  shows "\<exists>s'. for_loop xs body s = Some s' \<and> P s'"
  using assms
proof (induction xs arbitrary: s)
  case Nil
  then show ?case by simp
next
  case (Cons i xs)
  then obtain s1 where s1: "body i s = Some s1" "P s1"
    by (metis list.set_intros(1))
  have "\<exists>s'. for_loop xs body s1 = Some s' \<and> P s'"
    using s1(2) Cons.prems(2) by (intro Cons.IH) auto
  then show ?case using s1 by simp
qed


lemma interior_in_grid:
  assumes "interior W H x y"
  shows "in_grid W H x y" "in_grid W H (x - 1) y" "in_grid W H (x + 1) y"
    "in_grid W H x (y - 1)" "in_grid W H x (y + 1)"
  using assms by (auto simp: interior_def in_grid_def)

lemma in_grid_index:
  assumes "in_grid W H x y"
  shows "0 \<le> y * W + x" "y * W + x < W * H"
  using assms flat_index_range [of x W y H] by (auto simp: in_grid_def)

lemma cell_index_eq:
  assumes "in_grid W H x y" "in_grid W H x' y'"
  shows "nat (y * W + x) = nat (y' * W + x') \<longleftrightarrow> x = x' \<and> y = y'"
proof -
  have "0 \<le> y * W + x" "0 \<le> y' * W + x'"
    using assms by (auto dest: in_grid_index)
  then have "nat (y * W + x) = nat (y' * W + x') \<longleftrightarrow> y * W + x = y' * W + x'"
    by (rule eq_nat_nat_iff)
  also have "\<dots> \<longleftrightarrow> x = x' \<and> y = y'"
    using assms flat_index_inj [of x W x' y y'] by (auto simp: in_grid_def)
  finally show ?thesis .
qed

lemma rd_in_grid:
  assumes "length b = nat (W * H)" "in_grid W H x y"
  shows "rd b (y * W + x) = Some (cell W b x y)"
  using assms in_grid_index [OF assms(2)] by (simp add: rd_def cell_def)

lemma wr_in_grid:
  assumes "length b = nat (W * H)" "in_grid W H x y"
  shows "wr b (y * W + x) v = Some (b[nat (y * W + x) := v])"
  using assms in_grid_index [OF assms(2)] by (simp add: wr_def)

lemma cell_update:
  assumes "length b = nat (W * H)" "in_grid W H x y" "in_grid W H x' y'"
  shows "cell W (b[nat (y * W + x) := v]) x' y' = (if x' = x \<and> y' = y then v else cell W b x' y')"
proof -
  have "nat (y' * W + x') < length b"
    using assms in_grid_index [OF assms(3)] by simp
  then show ?thesis
    using cell_index_eq [OF assms(2,3)] by (auto simp: cell_def nth_list_update)
qed

lemma update_cell_result:
  assumes "well_sized W H fluid" "interior W H x y"
  shows "update_cell W y x fluid
           = Some (fluid\<lparr>current := (current fluid)[nat (y * W + x) := step_value W fluid x y]\<rparr>)"
proof -
  note g = interior_in_grid [OF assms(2)]
  have lp: "length (previous fluid) = nat (W * H)" and lc: "length (current fluid) = nat (W * H)"
    using assms(1) by (simp_all add: well_sized_def)
  have i1: "y * W + x - 1 = y * W + (x - 1)" "y * W + x + 1 = y * W + (x + 1)"
    "y * W + x - W = (y - 1) * W + x" "y * W + x + W = (y + 1) * W + x"
    by (simp_all add: algebra_simps)
  have r: "rd (previous fluid) (y * W + x - 1) = Some (cell W (previous fluid) (x - 1) y)"
    "rd (previous fluid) (y * W + x + 1) = Some (cell W (previous fluid) (x + 1) y)"
    "rd (previous fluid) (y * W + x - W) = Some (cell W (previous fluid) x (y - 1))"
    "rd (previous fluid) (y * W + x + W) = Some (cell W (previous fluid) x (y + 1))"
    "rd (previous fluid) (y * W + x) = Some (cell W (previous fluid) x y)"
    "rd (current fluid) (y * W + x) = Some (cell W (current fluid) x y)"
    unfolding i1 using g lp lc by (simp_all add: rd_in_grid)
  have w1: "wr (current fluid) (y * W + x) v = Some ((current fluid)[nat (y * W + x) := v])" for v
    using g lc by (simp add: wr_in_grid)
  have l1: "length ((current fluid)[nat (y * W + x) := v]) = nat (W * H)" for v
    using lc by simp
  have r1: "rd ((current fluid)[nat (y * W + x) := v]) (y * W + x) = Some v" for v
    using rd_in_grid [OF l1 g(1)] cell_update [OF lc g(1) g(1)] by simp
  have w2: "wr ((current fluid)[nat (y * W + x) := v]) (y * W + x) v'
              = Some ((current fluid)[nat (y * W + x) := v'])" for v v'
    using wr_in_grid [OF l1 g(1)] by simp
  let ?p = "cell W (previous fluid)" and ?c = "cell W (current fluid)"
  have val: "(2 * ?p x y - ?c x y
               + (?p (x - 1) y + ?p (x + 1) y + ?p x (y - 1) + ?p x (y + 1) - 4 * ?p x y) * 0.25)
             * damping fluid = step_value W fluid x y"
    by (simp add: step_value_def mult.commute)
  have "update_cell W y x fluid
          = Some (fluid\<lparr>current := (current fluid)[nat (y * W + x) :=
              (2 * ?p x y - ?c x y
                + (?p (x - 1) y + ?p (x + 1) y + ?p x (y - 1) + ?p x (y + 1) - 4 * ?p x y) * 0.25)
              * damping fluid]\<rparr>)"
    unfolding update_cell_def Let_def by (simp add: r w1 r1 w2)
  then show ?thesis by (simp only: val)
qed

lemma real_update_cell_result:
  assumes "well_sized W H fluid" "interior W H x y"
  shows "real_update_cell W y x fluid
           = Some (fluid\<lparr>current := (current fluid)[nat (y * W + x) := step_value W fluid x y]\<rparr>)"
proof -
  note g = interior_in_grid [OF assms(2)]
  have lp: "length (previous fluid) = nat (W * H)" and lc: "length (current fluid) = nat (W * H)"
    using assms(1) by (simp_all add: well_sized_def)
  have i1: "y * W + x - 1 = y * W + (x - 1)" "y * W + x + 1 = y * W + (x + 1)"
    "y * W + x - W = (y - 1) * W + x" "y * W + x + W = (y + 1) * W + x"
    by (simp_all add: algebra_simps)
  have r: "rd (previous fluid) (y * W + x - 1) = Some (cell W (previous fluid) (x - 1) y)"
    "rd (previous fluid) (y * W + x + 1) = Some (cell W (previous fluid) (x + 1) y)"
    "rd (previous fluid) (y * W + x - W) = Some (cell W (previous fluid) x (y - 1))"
    "rd (previous fluid) (y * W + x + W) = Some (cell W (previous fluid) x (y + 1))"
    "rd (previous fluid) (y * W + x) = Some (cell W (previous fluid) x y)"
    "rd (current fluid) (y * W + x) = Some (cell W (current fluid) x y)"
    unfolding i1 using g lp lc by (simp_all add: rd_in_grid)
  have w1: "wr (current fluid) (y * W + x) v = Some ((current fluid)[nat (y * W + x) := v])" for v
    using g lc by (simp add: wr_in_grid)
  let ?p = "cell W (previous fluid)" and ?c = "cell W (current fluid)"
  have val: "(2 * ?p x y - ?c x y
               + (?p (x - 1) y + ?p (x + 1) y + ?p x (y - 1) + ?p x (y + 1) - 4 * ?p x y) * 0.25)
             * damping fluid = step_value W fluid x y"
    by (simp add: step_value_def mult.commute)
  have "real_update_cell W y x fluid
          = Some (fluid\<lparr>current := (current fluid)[nat (y * W + x) :=
              (2 * ?p x y - ?c x y
                + (?p (x - 1) y + ?p (x + 1) y + ?p x (y - 1) + ?p x (y + 1) - 4 * ?p x y) * 0.25)
              * damping fluid]\<rparr>)"
    unfolding real_update_cell_def Let_def by (simp add: r w1)
  then show ?thesis by (simp only: val)
qed


lemma interior_pairs:
  "(y, x) \<in> set (List.product [1 .. H - 2] [1 .. W - 2]) \<longleftrightarrow> interior W H x y"
  by (auto simp: interior_def)

lemma stencil_loop:
  assumes body: "\<And>s x y. well_sized W H s \<Longrightarrow> interior W H x y \<Longrightarrow>
      body y x s = Some (s\<lparr>current := (current s)[nat (y * W + x) := step_value W s x y]\<rparr>)"
    and ws: "well_sized W H fluid"
  shows "\<exists>s'. for_loop [1 .. H - 2] (\<lambda>y. for_loop [1 .. W - 2] (body y)) fluid = Some s'
            \<and> stepped W H fluid {(y, x). interior W H x y} s'"
proof -
  let ?cells = "List.product [1 .. H - 2] [1 .. W - 2]"
  have "\<exists>s'. for_loop ?cells (\<lambda>(y, x). body y x) fluid = Some s'
            \<and> stepped W H fluid ({} \<union> set ?cells) s'"
  proof (rule for_loop_rule)
    show "distinct ?cells" by (simp add: distinct_product)
    show "stepped W H fluid {} fluid" by (simp add: stepped_def)
    show "{} \<inter> set ?cells = {}" by simp
  next
    fix i :: "int \<times> int" and D s
    assume i: "i \<in> set ?cells" and nD: "i \<notin> D" and inv: "stepped W H fluid D s"
    obtain y x where yx: "i = (y, x)" by (cases i)
    have int: "interior W H x y" using i unfolding yx by (simp only: interior_pairs)
    note g = interior_in_grid [OF int]
    have ws': "well_sized W H s"
      using ws inv by (simp add: well_sized_def stepped_def)
    have lc: "length (current s) = nat (W * H)"
      using ws' by (simp add: well_sized_def)
    have same: "step_value W s x y = step_value W fluid x y"
      using inv nD g unfolding yx stepped_def step_value_def by simp
    let ?s' = "s\<lparr>current := (current s)[nat (y * W + x) := step_value W fluid x y]\<rparr>"
    have b: "body y x s = Some ?s'"
      using body [OF ws' int] by (simp only: same)
    have "stepped W H fluid (insert i D) ?s'"
      unfolding stepped_def yx
    proof (intro conjI allI impI)
      fix x' y' assume g': "in_grid W H x' y'"
      show "cell W (current ?s') x' y'
              = (if (y', x') \<in> insert (y, x) D then step_value W fluid x' y'
                 else cell W (current fluid) x' y')"
        using cell_update [OF lc g(1) g'] inv g' unfolding stepped_def by auto
    qed (use inv in \<open>simp_all add: stepped_def\<close>)
    with b show "\<exists>s'. (case i of (y, x) \<Rightarrow> body y x) s = Some s' \<and> stepped W H fluid (insert i D) s'"
      by (simp add: yx)
  qed
  moreover have "set ?cells = {(y, x). interior W H x y}"
    by (auto simp: interior_def)
  ultimately show ?thesis
    by (simp add: for_loop_nested)
qed

lemma for_loop_cong_inv:
  assumes "P s"
    and "\<And>i s. i \<in> set xs \<Longrightarrow> P s \<Longrightarrow>
           body i s = body' i s \<and> (\<forall>s'. body i s = Some s' \<longrightarrow> P s')"
  shows "for_loop xs body s = for_loop xs body' s"
  using assms
proof (induction xs arbitrary: s)
  case Nil
  then show ?case by simp
next
  case (Cons i xs)
  have "body i s = body' i s \<and> (\<forall>s'. body i s = Some s' \<longrightarrow> P s')"
    by (rule Cons.prems(2)) (simp_all add: Cons.prems(1))
  then have e: "body i s = body' i s" and p: "\<forall>s'. body i s = Some s' \<longrightarrow> P s'"
    by blast+
  show ?case
  proof (cases "body i s")
    case None
    then show ?thesis using e by simp
  next
    case (Some s1)
    have "for_loop xs body s1 = for_loop xs body' s1"
    proof (rule Cons.IH)
      show "P s1" using p Some by blast
      show "body j t = body' j t \<and> (\<forall>s'. body j t = Some s' \<longrightarrow> P s')"
        if "j \<in> set xs" "P t" for j t
        by (rule Cons.prems(2)) (simp_all add: that)
    qed
    moreover have "body' i s = Some s1" using e Some by simp
    ultimately show ?thesis using Some by simp
  qed
qed

lemma real_update_fluid_cells_eq:
  assumes "well_sized W H fluid"
  shows "real_update_fluid_cells W H fluid = update_fluid_cells W H fluid"
proof -
  let ?cells = "List.product [1 .. H - 2] [1 .. W - 2]"
  have "for_loop ?cells (\<lambda>(y, x). real_update_cell W y x) fluid
          = for_loop ?cells (\<lambda>(y, x). update_cell W y x) fluid"
  proof (rule for_loop_cong_inv [where P = "well_sized W H"])
    show "well_sized W H fluid" by fact
  next
    fix i :: "int \<times> int" and s
    assume i: "i \<in> set ?cells" and ws: "well_sized W H s"
    obtain y x where yx: "i = (y, x)" by (cases i)
    have int: "interior W H x y" using i unfolding yx by (simp only: interior_pairs)
    show "(case i of (y, x) \<Rightarrow> real_update_cell W y x) s = (case i of (y, x) \<Rightarrow> update_cell W y x) s
          \<and> (\<forall>s'. (case i of (y, x) \<Rightarrow> real_update_cell W y x) s = Some s' \<longrightarrow> well_sized W H s')"
      using ws by (auto simp: yx real_update_cell_result [OF ws int] update_cell_result [OF ws int]
          well_sized_def)
  qed
  then show ?thesis
    by (simp add: real_update_fluid_cells_def update_fluid_cells_def for_loop_nested)
qed

lemma update_fluid_cells_stepped:
  assumes "well_sized W H fluid"
  shows "\<exists>s'. update_fluid_cells W H fluid = Some s'
            \<and> stepped W H fluid {(y, x). interior W H x y} s'"
  unfolding update_fluid_cells_def
proof (rule stencil_loop)
  show "well_sized W H fluid" by fact
  show "update_cell W y x s
          = Some (s\<lparr>current := (current s)[nat (y * W + x) := step_value W s x y]\<rparr>)"
    if "well_sized W H s" "interior W H x y" for s x y
    using that by (rule update_cell_result)
qed

section \<open>The time step\<close>

lemma update_fluid_texture_reads_current:
  assumes "current f1 = current f2"
  shows "update_fluid_texture W H pixels f1 time = update_fluid_texture W H pixels f2 time"
proof -
  have "texture_cell W f1 time y x p = texture_cell W f2 time y x p" for y x p
    using assms by (simp add: texture_cell_def)
  then have "texture_cell W f1 time = texture_cell W f2 time"
    by (intro ext)
  then show ?thesis
    by (simp only: update_fluid_texture_def)
qed

lemma update_fluid_result:
  assumes "well_sized W H fluid"
  shows "\<exists>s. update_fluid_cells W H fluid = Some s
           \<and> real_update_fluid_cells W H fluid = Some s
           \<and> update_fluid W H fluid = Some (swap_buffers s)
           \<and> real_update_fluid W H fluid = Some (swap_buffers s)
           \<and> stepped W H fluid {(y, x). interior W H x y} s"
proof -
  obtain s where s: "update_fluid_cells W H fluid = Some s"
      "stepped W H fluid {(y, x). interior W H x y} s"
    using update_fluid_cells_stepped [OF assms] by blast
  have "real_update_fluid_cells W H fluid = Some s"
    using s(1) real_update_fluid_cells_eq [OF assms] by simp
  then show ?thesis
    using s by (simp add: update_fluid_def real_update_fluid_def)
qed

text \<open>
  Claim C3. On buffers of the grid's size the two loops of \<^verbatim>\<open>update_fluid\<close> (in
  \<^verbatim>\<open>gridfluid.c\<close> and in \<^verbatim>\<open>realfluid.c\<close>) finish without a fault and, before the
  buffers are exchanged, leave in every interior cell of \<open>current\<close> the value
  \<open>damping * (2 * previous[x,y] - current[x,y] + 0.25 * laplacian)\<close> computed from the
  contents of the two buffers before the call; \<open>previous\<close>, the damping factor, the
  size of \<open>current\<close> and every cell of \<open>current\<close> that is not interior are unchanged.
\<close>

theorem step_interior_formula:
  assumes "well_sized W H fluid"
  shows "\<exists>s. update_fluid_cells W H fluid = Some s
           \<and> real_update_fluid_cells W H fluid = Some s
           \<and> previous s = previous fluid \<and> damping s = damping fluid
           \<and> length (current s) = length (current fluid)
           \<and> (\<forall>x y. interior W H x y \<longrightarrow>
                 cell W (current s) x y
                   = damping fluid
                     * (2 * cell W (previous fluid) x y - cell W (current fluid) x y
                        + 0.25 * (cell W (previous fluid) (x - 1) y
                                  + cell W (previous fluid) (x + 1) y
                                  + cell W (previous fluid) x (y - 1)
                                  + cell W (previous fluid) x (y + 1)
                                  - 4 * cell W (previous fluid) x y)))
           \<and> (\<forall>x y. in_grid W H x y \<and> \<not> interior W H x y \<longrightarrow>
                 cell W (current s) x y = cell W (current fluid) x y)"
proof -
  obtain s where s: "update_fluid_cells W H fluid = Some s"
      "real_update_fluid_cells W H fluid = Some s"
      "stepped W H fluid {(y, x). interior W H x y} s"
    using update_fluid_result [OF assms] by blast
  have "cell W (current s) x y = step_value W fluid x y" if "interior W H x y" for x y
    using s(3) that interior_in_grid(1) [OF that] by (simp add: stepped_def)
  moreover have "cell W (current s) x y = cell W (current fluid) x y"
    if "in_grid W H x y \<and> \<not> interior W H x y" for x y
    using s(3) that by (simp add: stepped_def)
  ultimately show ?thesis
    using s by (auto simp: stepped_def step_value_def Let_def)
qed

theorem step_interior_formula_witness:
  "well_sized 3 3 \<lparr>current = [0, 0, 0, 0, 7, 0, 0, 0, 0],
                   previous = [0, 1, 0, 2, 3, 4, 0, 5, 0], damping = 1 / 2\<rparr>
   \<and> interior 3 3 1 1
   \<and> (\<exists>s. update_fluid_cells 3 3 \<lparr>current = [0, 0, 0, 0, 7, 0, 0, 0, 0],
                   previous = [0, 1, 0, 2, 3, 4, 0, 5, 0], damping = 1 / 2\<rparr> = Some s
          \<and> cell 3 (current s) 1 1 = - 1 / 2)"
proof -
  let ?f = "\<lparr>current = [0, 0, 0, 0, 7, 0, 0, 0, 0],
             previous = [0, 1, 0, 2, 3, 4, 0, 5, (0::real)], damping = 1 / 2\<rparr>"
  have ws: "well_sized 3 3 ?f" by (simp add: well_sized_def)
  have int: "interior 3 3 1 1" by (simp add: interior_def)
  from step_interior_formula [OF ws] obtain s where
    s: "update_fluid_cells 3 3 ?f = Some s"
    and c: "\<forall>x y. interior 3 3 x y \<longrightarrow>
                 cell 3 (current s) x y
                   = damping ?f
                     * (2 * cell 3 (previous ?f) x y - cell 3 (current ?f) x y
                        + 0.25 * (cell 3 (previous ?f) (x - 1) y
                                  + cell 3 (previous ?f) (x + 1) y
                                  + cell 3 (previous ?f) x (y - 1)
                                  + cell 3 (previous ?f) x (y + 1)
                                  - 4 * cell 3 (previous ?f) x y))"
    by blast
  from c [rule_format, OF int] have "cell 3 (current s) 1 1 = - 1 / 2"
    by (simp add: cell_def)
  with ws int s show ?thesis by blast
qed


text \<open>
  Claim C2. One call of \<^verbatim>\<open>update_fluid\<close> on buffers of the grid's size first produces the
  grid \<open>s\<close> of the stencil loops and then exchanges the buffers: in the returned grid
  \<open>current\<close> is the list that was \<open>previous\<close> before the call, \<open>previous\<close> is the buffer the
  loops wrote (holding the stencil value in every interior cell), and the rendering pass
  \<^verbatim>\<open>update_fluid_texture\<close> gives the pixels of the pre-step \<open>previous\<close> buffer.
\<close>

theorem step_exchanges_buffers:
  assumes "well_sized W H fluid"
  shows "\<exists>s f'. update_fluid_cells W H fluid = Some s
           \<and> update_fluid W H fluid = Some f' \<and> real_update_fluid W H fluid = Some f'
           \<and> current f' = previous fluid
           \<and> previous f' = current s
           \<and> (\<forall>x y. interior W H x y \<longrightarrow> cell W (previous f') x y = step_value W fluid x y)
           \<and> update_fluid_texture W H pixels f' time
               = update_fluid_texture W H pixels (fluid\<lparr>current := previous fluid\<rparr>) time"
proof -
  obtain s where s: "update_fluid_cells W H fluid = Some s"
      "update_fluid W H fluid = Some (swap_buffers s)"
      "real_update_fluid W H fluid = Some (swap_buffers s)"
      "stepped W H fluid {(y, x). interior W H x y} s"
    using update_fluid_result [OF assms] by blast
  have cur: "current (swap_buffers s) = previous fluid"
    using s(4) by (simp add: swap_buffers_def stepped_def)
  have prev: "previous (swap_buffers s) = current s"
    by (simp add: swap_buffers_def)
  have val: "cell W (previous (swap_buffers s)) x y = step_value W fluid x y"
    if "interior W H x y" for x y
    using s(4) that interior_in_grid(1) [OF that] by (simp add: stepped_def prev)
  have tex: "update_fluid_texture W H pixels (swap_buffers s) time
               = update_fluid_texture W H pixels (fluid\<lparr>current := previous fluid\<rparr>) time"
    by (rule update_fluid_texture_reads_current) (simp add: cur)
  show ?thesis
    using s(1,2,3) cur prev val tex by blast
qed

theorem step_exchanges_buffers_witness:
  "well_sized 3 3 \<lparr>current = [0, 0, 0, 0, 7, 0, 0, 0, 0],
                   previous = [0, 1, 0, 2, 3, 4, 0, 5, 0], damping = 1 / 2\<rparr>
   \<and> interior 3 3 1 1
   \<and> (\<exists>f'. update_fluid 3 3 \<lparr>current = [0, 0, 0, 0, 7, 0, 0, 0, 0],
                   previous = [0, 1, 0, 2, 3, 4, 0, 5, 0], damping = 1 / 2\<rparr> = Some f'
          \<and> current f' = [0, 1, 0, 2, 3, 4, 0, 5, 0]
          \<and> cell 3 (previous f') 1 1 = - 1 / 2)"
proof -
  let ?f = "\<lparr>current = [0, 0, 0, 0, 7, 0, 0, 0, 0],
             previous = [0, 1, 0, 2, 3, 4, 0, 5, (0::real)], damping = 1 / 2\<rparr>"
  have ws: "well_sized 3 3 ?f" by (simp add: well_sized_def)
  have int: "interior 3 3 1 1" by (simp add: interior_def)
  from step_exchanges_buffers [OF ws] obtain f' where
    f: "update_fluid 3 3 ?f = Some f'" "current f' = previous ?f"
    and c: "\<forall>x y. interior 3 3 x y \<longrightarrow> cell 3 (previous f') x y = step_value 3 ?f x y"
    by blast
  from c [rule_format, OF int] have "cell 3 (previous f') 1 1 = - 1 / 2"
    by (simp add: step_value_def cell_def)
  with ws int f show ?thesis by auto
qed

lemma border_not_interior: "border W H x y \<Longrightarrow> \<not> interior W H x y"
  by (auto simp: border_def interior_def)

lemma border_in_grid: "border W H x y \<Longrightarrow> in_grid W H x y"
  by (simp add: border_def)

lemma update_fluid_border:
  assumes "well_sized W H fluid"
  shows "\<exists>f'. update_fluid W H fluid = Some f' \<and> real_update_fluid W H fluid = Some f'
           \<and> well_sized W H f'
           \<and> (\<forall>x y. border W H x y \<longrightarrow>
                 cell W (current f') x y = cell W (previous fluid) x y
                 \<and> cell W (previous f') x y = cell W (current fluid) x y)"
proof -
  obtain s where s: "update_fluid W H fluid = Some (swap_buffers s)"
      "real_update_fluid W H fluid = Some (swap_buffers s)"
      "stepped W H fluid {(y, x). interior W H x y} s"
    using update_fluid_result [OF assms] by blast
  have ws: "well_sized W H (swap_buffers s)"
    using s(3) assms by (simp add: stepped_def well_sized_def swap_buffers_def)
  have "cell W (current (swap_buffers s)) x y = cell W (previous fluid) x y
      \<and> cell W (previous (swap_buffers s)) x y = cell W (current fluid) x y"
    if "border W H x y" for x y
    using s(3) border_not_interior [OF that] border_in_grid [OF that]
    by (simp add: stepped_def swap_buffers_def)
  with s ws show ?thesis by blast
qed

lemma init_fluid_calm: "calm_border W H (init_fluid W H)"
proof -
  have "cell W (replicate (nat (W * H)) 0) x y = 0" if "border W H x y" for x y
    using in_grid_index [OF border_in_grid [OF that]] by (simp add: cell_def)
  then show ?thesis
    by (simp add: calm_border_def well_sized_def init_fluid_def)
qed

lemma update_fluid_calm:
  assumes "calm_border W H fluid"
  shows "\<exists>f'. update_fluid W H fluid = Some f' \<and> calm_border W H f'"
proof -
  have ws: "well_sized W H fluid" using assms by (simp add: calm_border_def)
  from update_fluid_border [OF ws] assms show ?thesis
    unfolding calm_border_def by metis
qed

lemma add_disturbance_calm:
  assumes "calm_border W H fluid"
  shows "\<exists>f'. add_disturbance W H fluid x y intensity = Some f' \<and> calm_border W H f'"
proof (cases "1 \<le> x \<and> x < W - 1 \<and> 1 \<le> y \<and> y < H - 1")
  case True
  have lp: "length (previous fluid) = nat (W * H)"
    using assms by (simp add: calm_border_def well_sized_def)
  let ?f' = "fluid\<lparr>previous :=
             (previous fluid)[nat (y * W + x) := previous fluid ! nat (y * W + x) + intensity]\<rparr>"
  have r: "add_disturbance W H fluid x y intensity = Some ?f'"
    using add_disturbance_inside [OF lp] True by simp
  have int: "interior W H x y" using True by (simp add: interior_def)
  have "cell W (previous ?f') bx by = cell W (previous fluid) bx by" if "border W H bx by" for bx "by"
    using cell_update [OF lp interior_in_grid(1) [OF int] border_in_grid [OF that]]
      border_not_interior [OF that] int by auto
  then have "calm_border W H ?f'"
    using assms by (simp add: calm_border_def well_sized_def)
  with r show ?thesis by blast
next
  case False
  then show ?thesis using assms by (simp add: add_disturbance_outside)
qed

lemma nested_loop_calm:
  assumes "calm_border W H fluid"
    and "\<And>i j f. calm_border W H f \<Longrightarrow> \<exists>f'. body i j f = Some f' \<and> calm_border W H f'"
  shows "\<exists>f'. for_loop is (\<lambda>i. for_loop js (body i)) fluid = Some f' \<and> calm_border W H f'"
proof (rule for_loop_preserves [where P = "calm_border W H"])
  show "calm_border W H fluid" by fact
  show "\<exists>s'. for_loop js (body i) s = Some s' \<and> calm_border W H s'"
    if "calm_border W H s" for i s
    using that assms(2) by (intro for_loop_preserves [where P = "calm_border W H"]) auto
qed

lemma wave_step_calm:
  assumes "calm_border W H fluid"
  shows "\<exists>f'. wave_step W H x1 y1 dx dy intensity steps i fluid = Some f' \<and> calm_border W H f'"
  unfolding wave_step_def Let_def
proof (rule nested_loop_calm [OF assms])
  show "\<exists>f'. wave_area_cell W H cx cy ci oy ox f = Some f' \<and> calm_border W H f'"
    if "calm_border W H f" for cx cy ci oy ox f
    using that add_disturbance_calm [OF that] by (simp add: wave_area_cell_def Let_def)
qed

lemma add_continuous_wave_calm:
  assumes "calm_border W H fluid"
  shows "\<exists>f'. add_continuous_wave W H fluid x1 y1 x2 y2 intensity = Some f' \<and> calm_border W H f'"
proof -
  have "\<exists>f'. for_loop js (wave_step W H x1 y1 dx dy intensity steps) fluid = Some f'
           \<and> calm_border W H f'" for js dx dy steps
    using assms wave_step_calm by (intro for_loop_preserves [where P = "calm_border W H"]) auto
  then show ?thesis
    using add_disturbance_calm [OF assms] by (simp add: add_continuous_wave_def Let_def)
qed

lemma add_velocity_field_calm:
  assumes "calm_border W H fluid"
  shows "\<exists>f'. add_velocity_field W H fluid x y intensity = Some f' \<and> calm_border W H f'"
proof -
  have "\<exists>f'. for_loop [-3 .. 3] (\<lambda>dy. for_loop [-3 .. 3] (velocity_cell W H x y intensity dy)) fluid
             = Some f' \<and> calm_border W H f'"
  proof (rule nested_loop_calm [OF assms])
    show "\<exists>f'. velocity_cell W H x y intensity dy dx f = Some f' \<and> calm_border W H f'"
      if "calm_border W H f" for dy dx f
      using that add_disturbance_calm [OF that] by (simp add: velocity_cell_def Let_def)
  qed
  then show ?thesis
    using assms by (simp add: add_velocity_field_def)
qed

lemma perform_calm:
  assumes "calm_border W H fluid"
  shows "\<exists>f'. perform W H a fluid = Some f' \<and> calm_border W H f'"
  using assms
  by (cases a)
    (simp_all add: update_fluid_calm add_disturbance_calm add_continuous_wave_calm
      add_velocity_field_calm)

text \<open>
  Claim C5. \<^verbatim>\<open>update_fluid\<close> leaves every border cell of both memory blocks as it was
  (the block now named \<open>current\<close> was \<open>previous\<close> and conversely); and after any sequence
  of steps and injections (point, line, radial) from the zero grid of \<^verbatim>\<open>init_fluid\<close>,
  every call has returned without a fault and every border cell of both buffers is zero.
\<close>

theorem boundary_inertness:
  "(well_sized W H fluid \<longrightarrow>
      (\<exists>f'. update_fluid W H fluid = Some f' \<and> real_update_fluid W H fluid = Some f'
          \<and> (\<forall>x y. border W H x y \<longrightarrow>
                cell W (current f') x y = cell W (previous fluid) x y
                \<and> cell W (previous f') x y = cell W (current fluid) x y)))
   \<and> (\<exists>f. run W H actions = Some f
          \<and> (\<forall>x y. border W H x y \<longrightarrow>
                cell W (current f) x y = 0 \<and> cell W (previous f) x y = 0))"
proof -
  have "\<exists>f. for_loop actions (perform W H) (init_fluid W H) = Some f \<and> calm_border W H f"
    using init_fluid_calm perform_calm
    by (intro for_loop_preserves [where P = "calm_border W H"]) auto
  then have "\<exists>f. run W H actions = Some f
          \<and> (\<forall>x y. border W H x y \<longrightarrow>
                cell W (current f) x y = 0 \<and> cell W (previous f) x y = 0)"
    by (auto simp: run_def calm_border_def)
  moreover have "\<exists>f'. update_fluid W H fluid = Some f' \<and> real_update_fluid W H fluid = Some f'
          \<and> (\<forall>x y. border W H x y \<longrightarrow>
                cell W (current f') x y = cell W (previous fluid) x y
                \<and> cell W (previous f') x y = cell W (current fluid) x y)"
    if "well_sized W H fluid"
    using update_fluid_border [OF that] by blast
  ultimately show ?thesis by blast
qed

theorem boundary_inertness_witness:
  "well_sized 3 3 (init_fluid 3 3) \<and> border 3 3 0 2
   \<and> update_fluid 3 3 (init_fluid 3 3) \<noteq> None
   \<and> (\<exists>f. run 3 3 [Point 1 1 10, Step, Radial 1 1 5, Step] = Some f
          \<and> cell 3 (current f) 0 2 = 0 \<and> cell 3 (previous f) 0 2 = 0)"
proof -
  have ws: "well_sized 3 3 (init_fluid 3 3)" by (simp add: well_sized_def init_fluid_def)
  have b: "border 3 3 0 2" by (simp add: border_def in_grid_def)
  from boundary_inertness [of 3 3 "init_fluid 3 3" "[Point 1 1 10, Step, Radial 1 1 5, Step]"]
  show ?thesis using ws b by blast
qed

lemma end_to_end_eval:
  "end_to_end
     = Some \<lparr>current = (replicate 100 0)[55 := 10],
             previous = (replicate 100 0)
                          [45 := 2.475, 54 := 2.475, 55 := 9.9, 56 := 2.475, 65 := 2.475],
             damping = 0.99\<rparr>"
  by code_simp

text \<open>
  Claim C1, as amended. In the end-to-end scenario (10 by 10 zero grid, damping 0.99, point
  injection of 10 at (5, 5), one \<^verbatim>\<open>update_fluid\<close>) the returned grid has, in the buffer
  named \<open>previous\<close>, 9.9 at (5, 5) (index 55), 2.475 at the four direct neighbours
  (indices 45, 54, 56, 65) and 0 in every other cell; the buffer named \<open>current\<close> is the
  injected field, 10 at (5, 5) and 0 elsewhere.
\<close>

theorem end_to_end_scenario:
  "end_to_end
     = Some \<lparr>current = (replicate 100 0)[55 := 10],
             previous = (replicate 100 0)
                          [45 := 2.475, 54 := 2.475, 55 := 9.9, 56 := 2.475, 65 := 2.475],
             damping = 0.99\<rparr>"
  by (rule end_to_end_eval)

text \<open>
  Claim C1 as stated fails: after the step \<open>current[5,5]\<close> is 10, the injected value, and
  the stencil value of that cell, found in \<open>previous\<close>, is
  \<open>0.99 * (2 * 10 - 0 + 0.25 * (0 - 4 * 10)) = 9.9\<close>; neither is \<open>-9.9\<close>.
\<close>

theorem end_to_end_counterexample:
  "end_to_end \<noteq> None
   \<and> cell 10 (current (the end_to_end)) 5 5 = 10
   \<and> cell 10 (current (the end_to_end)) 5 5 \<noteq> - 9.9
   \<and> cell 10 (previous (the end_to_end)) 5 5 = 9.9
   \<and> cell 10 (previous (the end_to_end)) 5 5 \<noteq> - 9.9"
  by (simp add: end_to_end_eval cell_def)

section \<open>Injections that walk a square of offsets\<close>

lemma offset_loop:
  assumes lp: "length (previous fluid) = nat (W * H)"
    and dist: "distinct ys" "distinct xs"
    and hit: "\<And>dy dx. dy \<in> set ys \<Longrightarrow> dx \<in> set xs \<Longrightarrow> hit dy dx
                \<Longrightarrow> in_grid W H (x + dx) (y + dy)"
    and body: "\<And>dy dx s. dy \<in> set ys \<Longrightarrow> dx \<in> set xs \<Longrightarrow> length (previous s) = nat (W * H)
                \<Longrightarrow> body dy dx s =
                    (if hit dy dx
                     then Some (s\<lparr>previous := (previous s)[nat ((y + dy) * W + (x + dx)) :=
                                   previous s ! nat ((y + dy) * W + (x + dx)) + amount dy dx]\<rparr>)
                     else Some s)"
  shows "\<exists>s'. for_loop ys (\<lambda>dy. for_loop xs (body dy)) fluid = Some s'
            \<and> spread W H x y hit amount fluid (set ys \<times> set xs) s'"
proof -
  let ?offs = "List.product ys xs"
  have "\<exists>s'. for_loop ?offs (\<lambda>(dy, dx). body dy dx) fluid = Some s'
            \<and> spread W H x y hit amount fluid ({} \<union> set ?offs) s'"
  proof (rule for_loop_rule)
    show "distinct ?offs" using dist by (simp add: distinct_product)
    show "spread W H x y hit amount fluid {} fluid" by (simp add: spread_def)
    show "{} \<inter> set ?offs = {}" by simp
  next
    fix i :: "int \<times> int" and D s
    assume i: "i \<in> set ?offs" and nD: "i \<notin> D" and inv: "spread W H x y hit amount fluid D s"
    obtain dy dx where yx: "i = (dy, dx)" by (cases i)
    have mem: "dy \<in> set ys" "dx \<in> set xs" using i by (simp_all add: yx)
    have ls: "length (previous s) = nat (W * H)"
      using inv lp by (simp add: spread_def)
    note b = body [OF mem ls]
    show "\<exists>s'. (case i of (dy, dx) \<Rightarrow> body dy dx) s = Some s'
               \<and> spread W H x y hit amount fluid (insert i D) s'"
    proof (cases "hit dy dx")
      case False
      have "spread W H x y hit amount fluid (insert i D) s"
        using inv False unfolding spread_def yx by auto
      then show ?thesis using b False by (simp add: yx)
    next
      case True
      note g = hit [OF mem True]
      let ?s' = "s\<lparr>previous := (previous s)[nat ((y + dy) * W + (x + dx)) :=
                   previous s ! nat ((y + dy) * W + (x + dx)) + amount dy dx]\<rparr>"
      have old: "previous s ! nat ((y + dy) * W + (x + dx)) = cell W (previous fluid) (x + dx) (y + dy)"
        using inv g nD unfolding spread_def yx cell_def by auto
      have "spread W H x y hit amount fluid (insert i D) ?s'"
        unfolding spread_def yx
      proof (intro conjI allI impI)
        fix cx cy assume g': "in_grid W H cx cy"
        have here: "(cy - y, cx - x) = (dy, dx) \<longleftrightarrow> cx = x + dx \<and> cy = y + dy" by auto
        show "cell W (previous ?s') cx cy
                = cell W (previous fluid) cx cy
                  + (if (cy - y, cx - x) \<in> insert (dy, dx) D \<and> hit (cy - y) (cx - x)
                     then amount (cy - y) (cx - x) else 0)"
        proof (cases "cx = x + dx \<and> cy = y + dy")
          case True
          then show ?thesis
            using cell_update [OF ls g g'] old \<open>hit dy dx\<close> by simp
        next
          case False
          then have "(cy - y, cx - x) \<noteq> (dy, dx)" using here by simp
          then show ?thesis
            using cell_update [OF ls g g'] False inv g' unfolding spread_def by auto
        qed
      qed (use inv in \<open>simp_all add: spread_def\<close>)
      then show ?thesis using b True by (simp add: yx)
    qed
  qed
  then show ?thesis
    by (simp add: for_loop_nested)
qed


lemma set_upto_pairs: "(dy, dx) \<in> set [a .. b] \<times> set [c .. d] \<longleftrightarrow> a \<le> dy \<and> dy \<le> b \<and> c \<le> dx \<and> dx \<le> d"
  by auto

lemma fluid_add_neighbour_result:
  assumes "interior W H x y" "dy \<in> set [-1 .. 1]" "dx \<in> set [-1 .. 1]"
    and ls: "length (previous s) = nat (W * H)"
  shows "fluid_add_neighbour W x y intensity dy dx s =
           (if \<not> (dx = 0 \<and> dy = 0)
            then Some (s\<lparr>previous := (previous s)[nat ((y + dy) * W + (x + dx)) :=
                          previous s ! nat ((y + dy) * W + (x + dx)) + intensity * 0.5]\<rparr>)
            else Some s)"
proof -
  have g: "in_grid W H (x + dx) (y + dy)"
    using assms(1-3) by (auto simp: interior_def in_grid_def)
  show ?thesis
    using rd_in_grid [OF ls g] wr_in_grid [OF ls g]
    by (simp add: fluid_add_neighbour_def Let_def cell_def)
qed

lemma fluid_add_disturbance_cells:
  assumes lp: "length (previous fluid) = nat (W * H)" and int: "interior W H x y"
  shows "\<exists>f'. fluid_add_disturbance W H fluid x y intensity = Some f'
           \<and> current f' = current fluid \<and> damping f' = damping fluid
           \<and> length (previous f') = length (previous fluid)
           \<and> (\<forall>cx cy. in_grid W H cx cy \<longrightarrow>
                 cell W (previous f') cx cy
                   = cell W (previous fluid) cx cy
                     + (if cx = x \<and> cy = y then intensity
                        else if \<bar>cx - x\<bar> \<le> 1 \<and> \<bar>cy - y\<bar> \<le> 1 then intensity * 0.5 else 0))"
proof -
  note g = interior_in_grid(1) [OF int]
  let ?f1 = "fluid\<lparr>previous :=
             (previous fluid)[nat (y * W + x) := previous fluid ! nat (y * W + x) + intensity]\<rparr>"
  let ?hit = "\<lambda>dy dx :: int. \<not> (dx = 0 \<and> dy = 0)"
  let ?amt = "\<lambda>dy dx :: int. intensity * 0.5"
  have l1: "length (previous ?f1) = nat (W * H)" using lp by simp
  have guard: "x \<ge> 1 \<and> x < W - 1 \<and> y \<ge> 1 \<and> y < H - 1"
    using int by (auto simp: interior_def)
  have start: "fluid_add_disturbance W H fluid x y intensity
                 = for_loop [-1 .. 1]
                     (\<lambda>dy. for_loop [-1 .. 1] (fluid_add_neighbour W x y intensity dy)) ?f1"
    using rd_in_grid [OF lp g] wr_in_grid [OF lp g] guard
    by (simp add: fluid_add_disturbance_def Let_def cell_def)
  have "\<exists>s'. for_loop [-1 .. 1] (\<lambda>dy. for_loop [-1 .. 1] (fluid_add_neighbour W x y intensity dy)) ?f1
               = Some s'
             \<and> spread W H x y ?hit ?amt ?f1 (set [-1 .. 1] \<times> set [-1 .. 1]) s'"
  proof (rule offset_loop [OF l1])
    show "in_grid W H (x + dx) (y + dy)"
      if "dy \<in> set [-1 .. 1]" "dx \<in> set [-1 .. 1]" for dy dx
      using that int by (auto simp: interior_def in_grid_def)
    show "fluid_add_neighbour W x y intensity dy dx s =
           (if \<not> (dx = 0 \<and> dy = 0)
            then Some (s\<lparr>previous := (previous s)[nat ((y + dy) * W + (x + dx)) :=
                          previous s ! nat ((y + dy) * W + (x + dx)) + intensity * 0.5]\<rparr>)
            else Some s)"
      if "dy \<in> set [-1 .. 1]" "dx \<in> set [-1 .. 1]" "length (previous s) = nat (W * H)" for dy dx s
      using int that by (rule fluid_add_neighbour_result)
  qed simp_all
  then obtain s' where s': "fluid_add_disturbance W H fluid x y intensity = Some s'"
      "spread W H x y ?hit ?amt ?f1 (set [-1 .. 1] \<times> set [-1 .. 1]) s'"
    using start by auto
  have "cell W (previous s') cx cy
          = cell W (previous fluid) cx cy
            + (if cx = x \<and> cy = y then intensity
               else if \<bar>cx - x\<bar> \<le> 1 \<and> \<bar>cy - y\<bar> \<le> 1 then intensity * 0.5 else 0)"
    if g': "in_grid W H cx cy" for cx cy
  proof -
    have a: "cell W (previous s') cx cy
               = cell W (previous ?f1) cx cy
                 + (if (cy - y, cx - x) \<in> set [-1 .. 1] \<times> set [-1 .. 1] \<and> ?hit (cy - y) (cx - x)
                    then intensity * 0.5 else 0)"
      using s'(2) g' by (simp only: spread_def)
    have b: "cell W (previous ?f1) cx cy
               = (if cx = x \<and> cy = y then cell W (previous fluid) x y + intensity
                  else cell W (previous fluid) cx cy)"
      using cell_update [OF lp g g'] by (simp add: cell_def)
    show ?thesis
      unfolding a b set_upto_pairs by auto
  qed
  moreover have "current s' = current fluid" "damping s' = damping fluid"
    "length (previous s') = length (previous fluid)"
    using s'(2) by (simp_all add: spread_def)
  ultimately show ?thesis using s'(1) by blast
qed

text \<open>
  Claim C9. For an interior centre and a \<open>previous\<close> buffer of the grid's size, the wide
  injection of \<^verbatim>\<open>fluid.c\<close> returns without a fault: the centre and its eight neighbours
  are cells of the grid, every access is inside the buffer, the centre gains
  \<open>intensity\<close>, each neighbour \<open>0.5 * intensity\<close>, and no other cell changes. A neighbour
  that is a border cell is written like any other.
\<close>

theorem wide_injection_in_bounds:
  assumes "length (previous fluid) = nat (W * H)" and "interior W H x y"
  shows "(\<forall>dx dy. - 1 \<le> dx \<and> dx \<le> 1 \<and> - 1 \<le> dy \<and> dy \<le> 1 \<longrightarrow> in_grid W H (x + dx) (y + dy))
       \<and> (\<exists>f'. fluid_add_disturbance W H fluid x y intensity = Some f'
             \<and> current f' = current fluid \<and> damping f' = damping fluid
             \<and> length (previous f') = length (previous fluid)
             \<and> (\<forall>cx cy. in_grid W H cx cy \<longrightarrow>
                   cell W (previous f') cx cy
                     = cell W (previous fluid) cx cy
                       + (if cx = x \<and> cy = y then intensity
                          else if \<bar>cx - x\<bar> \<le> 1 \<and> \<bar>cy - y\<bar> \<le> 1 then intensity * 0.5 else 0))
             \<and> (\<forall>cx cy. border W H cx cy \<and> \<bar>cx - x\<bar> \<le> 1 \<and> \<bar>cy - y\<bar> \<le> 1 \<longrightarrow>
                   cell W (previous f') cx cy = cell W (previous fluid) cx cy + intensity * 0.5))"
proof -
  have near: "in_grid W H (x + dx) (y + dy)"
    if "- 1 \<le> dx \<and> dx \<le> 1 \<and> - 1 \<le> dy \<and> dy \<le> 1" for dx dy
    using that assms(2) by (auto simp: interior_def in_grid_def)
  obtain f' where f': "fluid_add_disturbance W H fluid x y intensity = Some f'"
      "current f' = current fluid" "damping f' = damping fluid"
      "length (previous f') = length (previous fluid)"
    and cells: "\<forall>cx cy. in_grid W H cx cy \<longrightarrow>
                 cell W (previous f') cx cy
                   = cell W (previous fluid) cx cy
                     + (if cx = x \<and> cy = y then intensity
                        else if \<bar>cx - x\<bar> \<le> 1 \<and> \<bar>cy - y\<bar> \<le> 1 then intensity * 0.5 else 0)"
    using fluid_add_disturbance_cells [OF assms] by blast
  have "cell W (previous f') cx cy = cell W (previous fluid) cx cy + intensity * 0.5"
    if "border W H cx cy \<and> \<bar>cx - x\<bar> \<le> 1 \<and> \<bar>cy - y\<bar> \<le> 1" for cx cy
  proof -
    have "\<not> (cx = x \<and> cy = y)"
      using that assms(2) border_not_interior by blast
    then show ?thesis
      using cells that border_in_grid by auto
  qed
  with near f' cells show ?thesis by blast
qed

theorem wide_injection_in_bounds_witness:
  "length (previous (init_fluid 3 3)) = nat (3 * 3) \<and> interior 3 3 1 1
   \<and> border 3 3 0 0 \<and> \<bar>0 - 1\<bar> \<le> (1::int)
   \<and> (\<exists>f'. fluid_add_disturbance 3 3 (init_fluid 3 3) 1 1 10 = Some f'
          \<and> cell 3 (previous f') 1 1 = 10 \<and> cell 3 (previous f') 0 0 = 5)"
proof -
  have l: "length (previous (init_fluid 3 3)) = nat (3 * 3)" by (simp add: init_fluid_def)
  have i: "interior 3 3 1 1" by (simp add: interior_def)
  have b: "border 3 3 0 0" by (simp add: border_def in_grid_def)
  have g: "in_grid 3 3 1 1" by (simp add: in_grid_def)
  have z: "cell 3 (previous (init_fluid 3 3)) 1 1 = 0" "cell 3 (previous (init_fluid 3 3)) 0 0 = 0"
    by (simp_all add: init_fluid_def cell_def)
  from wide_injection_in_bounds [OF l i, of 10] obtain f' where
    f: "fluid_add_disturbance 3 3 (init_fluid 3 3) 1 1 10 = Some f'"
    and c: "\<forall>cx cy. in_grid 3 3 cx cy \<longrightarrow>
                   cell 3 (previous f') cx cy
                     = cell 3 (previous (init_fluid 3 3)) cx cy
                       + (if cx = 1 \<and> cy = 1 then 10
                          else if \<bar>cx - 1\<bar> \<le> 1 \<and> \<bar>cy - 1\<bar> \<le> 1 then 10 * 0.5 else 0)"
    and d: "\<forall>cx cy. border 3 3 cx cy \<and> \<bar>cx - 1\<bar> \<le> 1 \<and> \<bar>cy - 1\<bar> \<le> 1 \<longrightarrow>
                   cell 3 (previous f') cx cy = cell 3 (previous (init_fluid 3 3)) cx cy + 10 * 0.5"
    by blast
  have "cell 3 (previous f') 1 1 = 10" using c [rule_format, OF g] z by simp
  moreover have "cell 3 (previous f') 0 0 = 5" using d [rule_format, of 0 0] b z by simp
  ultimately show ?thesis using l i b f by auto
qed

lemma sum_lessThan_8:
  fixes f :: "nat \<Rightarrow> real"
  shows "(\<Sum>m<8. f m) = f 0 + f 1 + f 2 + f 3 + f 4 + f 5 + f 6 + f 7"
proof -
  have "{..<8::nat} = {0, 1, 2, 3, 4, 5, 6, 7}" by auto
  then show ?thesis by simp
qed

lemma cos_coeff_values:
  "cos_coeff (Suc 0) = 0" "cos_coeff 2 = - 1 / 2" "cos_coeff 3 = 0" "cos_coeff 4 = 1 / 24"
  "cos_coeff 5 = 0" "cos_coeff 6 = - 1 / 720" "cos_coeff 7 = 0"
  by (simp_all add: cos_coeff_def fact_numeral)

lemma cos_8_5_neg: "cos (8 / 5 :: real) < 0"
proof -
  obtain t :: real where t: "cos (8 / 5 :: real)
      = (\<Sum>m<8. cos_coeff m * (8 / 5) ^ m) + (cos (t + 1 / 2 * real 8 * pi) / fact 8) * (8 / 5) ^ 8"
    using Maclaurin_cos_expansion2 [of "8 / 5" 8] by auto
  have s: "(\<Sum>m<8. cos_coeff m * (8 / 5 :: real) ^ m) = - 21259 / 703125"
    unfolding sum_lessThan_8 by (simp add: cos_coeff_values power_divide)
  define r where "r = (cos (t + 1 / 2 * real 8 * pi) / fact 8) * (8 / 5) ^ 8"
  have "cos (t + 1 / 2 * real 8 * pi) \<le> 1" by (rule cos_le_one)
  then have "r \<le> (1 / fact 8) * (8 / 5) ^ 8"
    unfolding r_def by (intro mult_right_mono divide_right_mono) simp_all
  also have "\<dots> = 16777216 / 390625 / 40320"
    by (simp add: fact_numeral power_divide)
  finally have r: "r \<le> 16777216 / 390625 / 40320" .
  have "cos (8 / 5 :: real) = - 21259 / 703125 + r"
    using t unfolding s r_def by simp
  with r show ?thesis by simp
qed


lemma disk3_offsets:
  assumes "sqrt (real_of_int (dx * dx + dy * dy)) \<le> 3"
  shows "- 3 \<le> dx \<and> dx \<le> 3 \<and> - 3 \<le> dy \<and> dy \<le> 3"
proof -
  have "real_of_int (dx * dx + dy * dy) \<le> 3\<^sup>2"
    using assms by (rule sqrt_le_D)
  then have "real_of_int (dx * dx + dy * dy) \<le> real_of_int 9" by simp
  then have le: "dx * dx + dy * dy \<le> 9" by (simp only: of_int_le_iff)
  have "0 \<le> dx * dx" "0 \<le> dy * dy" by simp_all
  with le have "dx * dx \<le> 9" "dy * dy \<le> 9" by linarith+
  then have "dx\<^sup>2 \<le> 3\<^sup>2" "dy\<^sup>2 \<le> 3\<^sup>2" by (simp_all add: power2_eq_square)
  then have "\<bar>dx\<bar> \<le> \<bar>3\<bar>" "\<bar>dy\<bar> \<le> \<bar>3\<bar>" by (simp_all only: abs_le_square_iff)
  then show ?thesis by auto
qed

lemma velocity_cell_result:
  assumes ls: "length (previous s) = nat (W * H)"
  shows "velocity_cell W H x y intensity dy dx s =
           (if sqrt (real_of_int (dx * dx + dy * dy)) \<le> 3 \<and> interior W H (x + dx) (y + dy)
            then Some (s\<lparr>previous := (previous s)[nat ((y + dy) * W + (x + dx)) :=
                          previous s ! nat ((y + dy) * W + (x + dx))
                          + intensity * (cos (sqrt (real_of_int (dx * dx + dy * dy)) * 0.8)
                                         * (1 - sqrt (real_of_int (dx * dx + dy * dy)) / 3))]\<rparr>)
            else Some s)"
proof (cases "interior W H (x + dx) (y + dy)")
  case True
  then have "1 \<le> x + dx" "x + dx < W - 1" "1 \<le> y + dy" "y + dy < H - 1"
    by (auto simp: interior_def)
  from add_disturbance_inside [OF ls this] True show ?thesis
    by (simp add: velocity_cell_def Let_def)
next
  case False
  then have "\<not> (1 \<le> x + dx \<and> x + dx < W - 1 \<and> 1 \<le> y + dy \<and> y + dy < H - 1)"
    by (auto simp: interior_def)
  from add_disturbance_outside [OF this] False show ?thesis
    by (simp add: velocity_cell_def Let_def)
qed

lemma add_velocity_field_cells:
  assumes lp: "length (previous fluid) = nat (W * H)"
    and centre: "2 \<le> x \<and> x < W - 2 \<and> 2 \<le> y \<and> y < H - 2"
  shows "\<exists>f'. add_velocity_field W H fluid x y intensity = Some f'
           \<and> current f' = current fluid \<and> damping f' = damping fluid
           \<and> length (previous f') = length (previous fluid)
           \<and> (\<forall>cx cy. in_grid W H cx cy \<longrightarrow>
                 cell W (previous f') cx cy
                   = cell W (previous fluid) cx cy
                     + (let d = sqrt (real_of_int ((cx - x) * (cx - x) + (cy - y) * (cy - y)))
                        in if interior W H cx cy \<and> d \<le> 3
                           then intensity * cos (d * 0.8) * (1 - d / 3) else 0))"
proof -
  let ?d = "\<lambda>dy dx :: int. sqrt (real_of_int (dx * dx + dy * dy))"
  let ?hit = "\<lambda>dy dx. ?d dy dx \<le> 3 \<and> interior W H (x + dx) (y + dy)"
  let ?amt = "\<lambda>dy dx. intensity * (cos (?d dy dx * 0.8) * (1 - ?d dy dx / 3))"
  have "\<exists>s'. for_loop [-3 .. 3] (\<lambda>dy. for_loop [-3 .. 3] (velocity_cell W H x y intensity dy)) fluid
               = Some s'
             \<and> spread W H x y ?hit ?amt fluid (set [-3 .. 3] \<times> set [-3 .. 3]) s'"
  proof (rule offset_loop [OF lp])
    show "in_grid W H (x + dx) (y + dy)" if "?hit dy dx" for dy dx
      using that interior_in_grid(1) by blast
    show "velocity_cell W H x y intensity dy dx s =
           (if ?hit dy dx
            then Some (s\<lparr>previous := (previous s)[nat ((y + dy) * W + (x + dx)) :=
                          previous s ! nat ((y + dy) * W + (x + dx)) + ?amt dy dx]\<rparr>)
            else Some s)"
      if "length (previous s) = nat (W * H)" for dy dx s
      using that by (rule velocity_cell_result)
  qed simp_all
  then obtain s' where s': "add_velocity_field W H fluid x y intensity = Some s'"
      "spread W H x y ?hit ?amt fluid (set [-3 .. 3] \<times> set [-3 .. 3]) s'"
    using centre by (auto simp: add_velocity_field_def)
  have "cell W (previous s') cx cy
          = cell W (previous fluid) cx cy
            + (let d = sqrt (real_of_int ((cx - x) * (cx - x) + (cy - y) * (cy - y)))
               in if interior W H cx cy \<and> d \<le> 3
                  then intensity * cos (d * 0.8) * (1 - d / 3) else 0)"
    if g': "in_grid W H cx cy" for cx cy
  proof -
    have a: "cell W (previous s') cx cy
               = cell W (previous fluid) cx cy
                 + (if (cy - y, cx - x) \<in> set [-3 .. 3] \<times> set [-3 .. 3] \<and> ?hit (cy - y) (cx - x)
                    then ?amt (cy - y) (cx - x) else 0)"
      using s'(2) g' by (simp only: spread_def)
    have b: "(cy - y, cx - x) \<in> set [-3 .. 3] \<times> set [-3 .. 3]" if "?d (cy - y) (cx - x) \<le> 3"
      using disk3_offsets [OF that] unfolding set_upto_pairs by blast
    show ?thesis
      unfolding a Let_def using b by auto
  qed
  moreover have "current s' = current fluid" "damping s' = damping fluid"
    "length (previous s') = length (previous fluid)"
    using s'(2) by (simp_all add: spread_def)
  ultimately show ?thesis using s'(1) by blast
qed

text \<open>
  Claim C6, as amended. When the centre passes the check of \<^verbatim>\<open>add_velocity_field\<close>
  (\<open>2 \<le> x < W - 2\<close>, \<open>2 \<le> y < H - 2\<close>), every grid cell at distance \<open>d \<le> 3\<close> from the
  centre that is an interior cell gains exactly \<open>intensity * cos (d * 0.8) * (1 - d / 3)\<close>
  in \<open>previous\<close>, and every other cell (border cells included) keeps its value. When the
  centre is at least 4 cells from every border, every offset of the disk has an interior
  target, so nothing is dropped.
\<close>

theorem radial_injection_interior_targets:
  assumes "length (previous fluid) = nat (W * H)"
    and "2 \<le> x \<and> x < W - 2 \<and> 2 \<le> y \<and> y < H - 2"
  shows "(\<exists>f'. add_velocity_field W H fluid x y intensity = Some f'
           \<and> current f' = current fluid \<and> damping f' = damping fluid
           \<and> length (previous f') = length (previous fluid)
           \<and> (\<forall>cx cy. in_grid W H cx cy \<longrightarrow>
                 cell W (previous f') cx cy
                   = cell W (previous fluid) cx cy
                     + (let d = sqrt (real_of_int ((cx - x) * (cx - x) + (cy - y) * (cy - y)))
                        in if interior W H cx cy \<and> d \<le> 3
                           then intensity * cos (d * 0.8) * (1 - d / 3) else 0)))
       \<and> (\<forall>dx dy. 4 \<le> x \<and> x \<le> W - 5 \<and> 4 \<le> y \<and> y \<le> H - 5
                  \<and> sqrt (real_of_int (dx * dx + dy * dy)) \<le> 3
             \<longrightarrow> interior W H (x + dx) (y + dy))"
proof -
  have "interior W H (x + dx) (y + dy)"
    if "4 \<le> x \<and> x \<le> W - 5 \<and> 4 \<le> y \<and> y \<le> H - 5
          \<and> sqrt (real_of_int (dx * dx + dy * dy)) \<le> 3" for dx dy
  proof -
    have "- 3 \<le> dx \<and> dx \<le> 3 \<and> - 3 \<le> dy \<and> dy \<le> 3"
      using that by (intro disk3_offsets) simp
    with that show ?thesis by (auto simp: interior_def)
  qed
  with add_velocity_field_cells [OF assms, of intensity] show ?thesis by blast
qed

theorem radial_injection_interior_targets_witness:
  "length (previous (init_fluid 10 10)) = nat (10 * 10)
   \<and> ((2::int) \<le> 5 \<and> (5::int) < 10 - 2 \<and> (2::int) \<le> 5 \<and> (5::int) < 10 - 2)
   \<and> in_grid 10 10 5 5 \<and> in_grid 10 10 0 5
   \<and> (\<exists>f'. add_velocity_field 10 10 (init_fluid 10 10) 5 5 2 = Some f'
          \<and> cell 10 (previous f') 5 5 = 2 \<and> cell 10 (previous f') 0 5 = 0)"
proof -
  have l: "length (previous (init_fluid 10 10)) = nat (10 * 10)" by (simp add: init_fluid_def)
  have c: "(2::int) \<le> 5 \<and> (5::int) < 10 - 2 \<and> (2::int) \<le> 5 \<and> (5::int) < 10 - 2" by simp
  have g: "in_grid 10 10 5 5" "in_grid 10 10 0 5" by (simp_all add: in_grid_def)
  have z: "cell 10 (previous (init_fluid 10 10)) 5 5 = 0" "cell 10 (previous (init_fluid 10 10)) 0 5 = 0"
    by (simp_all add: init_fluid_def cell_def)
  from radial_injection_interior_targets [OF l c, of 2] obtain f' where
    f: "add_velocity_field 10 10 (init_fluid 10 10) 5 5 2 = Some f'"
    and cells: "\<forall>cx cy. in_grid 10 10 cx cy \<longrightarrow>
                 cell 10 (previous f') cx cy
                   = cell 10 (previous (init_fluid 10 10)) cx cy
                     + (let d = sqrt (real_of_int ((cx - 5) * (cx - 5) + (cy - 5) * (cy - 5)))
                        in if interior 10 10 cx cy \<and> d \<le> 3
                           then 2 * cos (d * 0.8) * (1 - d / 3) else 0)"
    by blast
  have "cell 10 (previous f') 5 5 = 2"
    using cells [rule_format, OF g(1)] z by (simp add: interior_def)
  moreover have "cell 10 (previous f') 0 5 = 0"
    using cells [rule_format, OF g(2)] z by (simp add: interior_def)
  ultimately show ?thesis using l g f by auto
qed

text \<open>
  Claim C6 as stated fails: the centre (2, 5) of a 10 by 10 grid passes the check, the
  offset (-2, 0) is at distance 2 from it, its target (0, 5) is a border cell and keeps
  its value, while the amount the claim says is added there, \<open>cos 1.6 / 3\<close>, is not
  zero.
\<close>

theorem radial_injection_counterexample:
  "((2::int) \<ge> 2 \<and> (2::int) < 10 - 2 \<and> (5::int) \<ge> 2 \<and> (5::int) < 10 - 2)
   \<and> sqrt (real_of_int ((- 2) * (- 2) + 0 * 0)) \<le> 3
   \<and> add_velocity_field 10 10 (init_fluid 10 10) 2 5 1 \<noteq> None
   \<and> cell 10 (previous (the (add_velocity_field 10 10 (init_fluid 10 10) 2 5 1))) (2 + (- 2)) (5 + 0)
       = cell 10 (previous (init_fluid 10 10)) (2 + (- 2)) (5 + 0)
   \<and> 1 * cos (sqrt (real_of_int ((- 2) * (- 2) + 0 * 0)) * 0.8)
         * (1 - sqrt (real_of_int ((- 2) * (- 2) + 0 * 0)) / 3) \<noteq> (0::real)"
proof -
  have l: "length (previous (init_fluid 10 10)) = nat (10 * 10)" by (simp add: init_fluid_def)
  have c: "(2::int) \<le> 2 \<and> (2::int) < 10 - 2 \<and> (2::int) \<le> 5 \<and> (5::int) < 10 - 2" by simp
  have g: "in_grid 10 10 0 5" by (simp add: in_grid_def)
  from add_velocity_field_cells [OF l c, of 1] obtain f' where
    f: "add_velocity_field 10 10 (init_fluid 10 10) 2 5 1 = Some f'"
    and cells: "\<forall>cx cy. in_grid 10 10 cx cy \<longrightarrow>
                 cell 10 (previous f') cx cy
                   = cell 10 (previous (init_fluid 10 10)) cx cy
                     + (let d = sqrt (real_of_int ((cx - 2) * (cx - 2) + (cy - 5) * (cy - 5)))
                        in if interior 10 10 cx cy \<and> d \<le> 3
                           then 1 * cos (d * 0.8) * (1 - d / 3) else 0)"
    by blast
  have same: "cell 10 (previous f') 0 5 = cell 10 (previous (init_fluid 10 10)) 0 5"
    using cells [rule_format, OF g] by (simp add: interior_def)
  have four: "sqrt (real_of_int ((- 2) * (- 2) + 0 * 0)) = 2"
    using real_sqrt_abs [of 2] by (simp add: power2_eq_square)
  have "cos (2 * 0.8 :: real) < 0" using cos_8_5_neg by simp
  then have nz: "1 * cos (2 * 0.8) * (1 - 2 / 3) \<noteq> (0::real)" by simp
  show ?thesis
    unfolding four using f same nz by simp
qed

section \<open>Colour mapping: bounds\<close>

lemma small_bit: "take_bit 8 (R :: 32 word) = R \<Longrightarrow> bit R n \<Longrightarrow> n < 8"
  by (metis bit_take_bit_iff)

lemma bit_FF000000: "bit (0xFF000000 :: 32 word) n \<longleftrightarrow> 24 \<le> n \<and> n < 32"
proof -
  have e: "(0xFF000000 :: 32 word) = push_bit 24 (mask 8)" by (simp add: mask_eq_exp_minus_1)
  have "bit (push_bit 24 (mask 8) :: 32 word) n \<longleftrightarrow> 24 \<le> n \<and> n < 32"
    by (auto simp: bit_simps)
  then show ?thesis unfolding e .
qed

lemma bit_FF: "bit (0xFF :: 32 word) n \<longleftrightarrow> n < 8"
proof -
  have e: "(0xFF :: 32 word) = mask 8" by (simp add: mask_eq_exp_minus_1)
  have "bit (mask 8 :: 32 word) n \<longleftrightarrow> n < 8"
    by (auto simp: bit_simps)
  then show ?thesis unfolding e .
qed

lemma pack_bits:
  fixes R G B :: "32 word"
  assumes "take_bit 8 R = R" "take_bit 8 G = G" "take_bit 8 B = B"
  defines "w \<equiv> push_bit 16 R OR push_bit 8 G OR B OR 0xFF000000"
  shows "alpha_of w = 0xFF" "red_of w = R" "green_of w = G" "blue_of w = B"
proof -
  note sb = small_bit[OF assms(1)] small_bit[OF assms(2)] small_bit[OF assms(3)]
  show "alpha_of w = 0xFF"
    unfolding w_def alpha_of_def
    by (rule bit_eqI) (auto simp: bit_simps bit_FF000000 bit_FF dest: sb)
  show "red_of w = R"
    unfolding w_def red_of_def
    by (rule bit_eqI) (auto simp: bit_simps bit_FF000000 dest: sb)
  show "green_of w = G"
    unfolding w_def green_of_def
    by (rule bit_eqI) (auto simp: bit_simps bit_FF000000 dest: sb)
  show "blue_of w = B"
    unfolding w_def blue_of_def
    by (rule bit_eqI) (auto simp: bit_simps bit_FF000000 dest: sb)
qed

lemma byte_word32:
  assumes "0 \<le> i" "i \<le> 255"
  shows "take_bit 8 (word_of_int i :: 32 word) = word_of_int i" "uint (word_of_int i :: 32 word) = i"
proof -
  show u: "uint (word_of_int i :: 32 word) = i"
    using assms by (simp add: uint_word_of_int)
  have "take_bit 8 i = i"
    using assms by (simp add: take_bit_int_eq_self)
  then have "uint (take_bit 8 (word_of_int i :: 32 word)) = uint (word_of_int i :: 32 word)"
    by (simp add: unsigned_take_bit_eq u)
  then show "take_bit 8 (word_of_int i :: 32 word) = word_of_int i"
    by (simp only: word_uint_eq_iff)
qed

text \<open>
  \<open>float_exp\<close> is the exponent of the binade of a normal number, and \<open>-126\<close> below the
  normal range.
\<close>

lemma float_exp_binade:
  assumes "2 powi (- 126) \<le> \<bar>x\<bar>"
  shows "2 powi float_exp x \<le> \<bar>x\<bar>" "\<bar>x\<bar> < 2 powi (float_exp x + 1)"
proof -
  define m where "m = \<lfloor>\<bar>x\<bar> * 2 ^ 126\<rfloor>"
  have "(2::real) powi (- 126) = 1 / 2 ^ 126"
    by (simp add: power_int_minus field_simps)
  then have y1: "1 \<le> \<bar>x\<bar> * 2 ^ 126"
    using assms by (simp add: field_simps)
  then have m1: "1 \<le> m" by (simp add: m_def le_floor_iff)
  define k where "k = nat (bitlen m - 1)"
  have bl1: "1 \<le> bitlen m"
    using m1 by (simp add: bitlen_ge_iff_power)
  then have bl: "bitlen m = int k + 1" by (simp add: k_def)
  have lo: "2 ^ k \<le> m" and hi: "m < 2 ^ nat (bitlen m)"
    using bitlen_bounds [of m] m1 by (simp_all add: k_def)
  have hi': "m + 1 \<le> 2 ^ (k + 1)"
    using hi by (simp add: bl nat_add_distrib)
  have fe: "float_exp x = int k - 126"
    unfolding float_exp_def m_def [symmetric] bl by simp
  have p: "(2::real) powi (int j - 126) = 2 ^ j / 2 ^ 126" for j
    by (simp add: power_int_diff)
  have fe': "float_exp x + 1 = int (Suc k) - 126"
    using fe by simp
  have "real_of_int (2 ^ k) \<le> real_of_int m" using lo by (simp only: of_int_le_iff)
  also have "\<dots> \<le> \<bar>x\<bar> * 2 ^ 126" by (simp add: m_def)
  finally show "2 powi float_exp x \<le> \<bar>x\<bar>"
    unfolding fe p by (simp add: field_simps)
  have "\<bar>x\<bar> * 2 ^ 126 < real_of_int m + 1" by (simp add: m_def)
  also have "\<dots> = real_of_int (m + 1)" by simp
  also have "\<dots> \<le> real_of_int (2 ^ (k + 1))" using hi' by (simp only: of_int_le_iff)
  finally show "\<bar>x\<bar> < 2 powi (float_exp x + 1)"
    unfolding fe' p by (simp add: field_simps)
qed

lemma float_exp_subnormal: "\<bar>x\<bar> < 2 powi (- 126) \<Longrightarrow> float_exp x = - 126"
proof -
  assume a: "\<bar>x\<bar> < 2 powi (- 126)"
  have "(2::real) powi (- 126) = 1 / 2 ^ 126"
    by (simp add: power_int_minus field_simps)
  then have "\<bar>x\<bar> * 2 ^ 126 < 1" using a by (simp add: field_simps)
  then have "\<lfloor>\<bar>x\<bar> * 2 ^ 126\<rfloor> = 0" by (simp add: floor_eq_iff)
  then show ?thesis by (simp add: float_exp_def)
qed

text \<open>
  \<open>round32\<close> on some inputs: the float nearest to 0.1; two ties above \<open>2 ^ 24\<close>, resolved
  to the even significand; the largest finite float and the overflow threshold half a
  spacing above it; two ties in the subnormal range.
\<close>

lemma round32_examples:
  "round32 (1 / 10) = Finite (13421773 / 2 ^ 27)"
  "round32 16777217 = Finite 16777216"
  "round32 16777219 = Finite 16777220"
  "round32 (2 ^ 128 - 2 ^ 103 - 1) = Finite (2 ^ 128 - 2 ^ 104)"
  "round32 (2 ^ 128 - 2 ^ 103) = PInf"
  "round32 (- (2 ^ 128)) = NInf"
  "round32 (3 / 2 ^ 150) = Finite (1 / 2 ^ 148)"
  "round32 (1 / 2 ^ 150) = Finite 0"
  by code_simp+


lemma round_even_ge: "of_int a \<le> q \<Longrightarrow> a \<le> round_even q"
proof -
  assume "of_int a \<le> q"
  then have "a \<le> \<lfloor>q\<rfloor>" by (simp add: le_floor_iff)
  then show ?thesis by (auto simp: round_even_def Let_def)
qed

lemma round_even_le: "q \<le> of_int b \<Longrightarrow> round_even q \<le> b"
proof -
  assume q: "q \<le> of_int b"
  then have f: "\<lfloor>q\<rfloor> \<le> b" by (simp add: floor_le_iff)
  have "\<lfloor>q\<rfloor> + 1 \<le> b" if "0 < q - of_int \<lfloor>q\<rfloor>"
  proof -
    have "of_int \<lfloor>q\<rfloor> < (of_int b :: real)" using that q by linarith
    then have "\<lfloor>q\<rfloor> < b" by (simp only: of_int_less_iff)
    then show ?thesis by simp
  qed
  with f show ?thesis by (auto simp: round_even_def Let_def)
qed

lemma float_exp_small:
  assumes "\<bar>x\<bar> < 2 ^ 24"
  shows "float_exp x \<le> 23"
proof -
  have "\<bar>x\<bar> * 2 ^ 126 < 2 ^ 24 * 2 ^ 126" using assms by simp
  also have "\<dots> = (2 ^ 150 :: real)" by simp
  finally have "\<lfloor>\<bar>x\<bar> * 2 ^ 126\<rfloor> < 2 ^ 150"
    by (simp add: floor_less_iff)
  then have "bitlen \<lfloor>\<bar>x\<bar> * 2 ^ 126\<rfloor> \<le> 150"
    by (simp add: bitlen_le_iff_power)
  then show ?thesis by (simp add: float_exp_def)
qed

lemma round32_bounded:
  assumes "0 \<le> x" "x \<le> of_nat b" "b < 2 ^ 24"
  shows "\<exists>v. round32 x = Finite v \<and> 0 \<le> v \<and> v \<le> of_nat b"
proof -
  have "\<bar>x\<bar> < 2 ^ 24"
  proof -
    have "real b < 2 ^ 24" using assms(3) by (metis of_nat_less_iff of_nat_numeral of_nat_power)
    then show ?thesis using assms by simp
  qed
  then have e: "float_exp x \<le> 23" by (rule float_exp_small)
  define k where "k = nat (23 - float_exp x)"
  define ulp :: real where "ulp = 2 powi (float_exp x - 23)"
  have ulp: "ulp = 1 / 2 ^ k"
  proof -
    have "float_exp x - 23 = - int k" using e by (simp add: k_def)
    then have "ulp = 2 powi (- int k)" by (simp only: ulp_def)
    then show ?thesis by (simp add: power_int_minus field_simps)
  qed
  have pos: "0 < ulp" by (simp add: ulp)
  define n where "n = round_even (x / ulp)"
  have "of_int 0 \<le> x / ulp" using assms(1) pos by simp
  then have n0: "0 \<le> n" unfolding n_def by (rule round_even_ge)
  have "x / ulp \<le> of_int (int b * 2 ^ k)"
    using assms(2) by (simp add: ulp mult_right_mono)
  then have nb: "n \<le> int b * 2 ^ k" unfolding n_def by (rule round_even_le)
  define v where "v = of_int n * ulp"
  have v0: "0 \<le> v" using n0 pos by (simp add: v_def)
  have "of_int n \<le> (of_int (int b * 2 ^ k) :: real)" using nb by (simp only: of_int_le_iff)
  then have "of_int n * ulp \<le> of_int (int b * 2 ^ k) * ulp"
    using pos by (intro mult_right_mono) simp_all
  then have vb: "v \<le> of_nat b" by (simp add: v_def ulp)
  have "real b < 2 ^ 128"
  proof -
    have "b < 2 ^ 128" using assms(3) by (rule less_trans) simp
    then show ?thesis by (metis of_nat_less_iff of_nat_numeral of_nat_power)
  qed
  with vb have small: "v < 2 ^ 128" by simp
  have "round32 x = Finite v"
    using small v0 unfolding round32_def Let_def ulp_def [symmetric] n_def [symmetric] v_def [symmetric]
    by (auto simp: not_le)
  with v0 vb show ?thesis by blast
qed

lemma f32_values: "f32 0 = Finite 0" "f32 1 = Finite 1" "f32 255 = Finite 255"
  unfolding f32_def by code_simp+

lemma clamp_unit_float:
  "\<exists>c. fminf (fmaxf r (Finite 0)) (Finite 1) = Finite c \<and> 0 \<le> c \<and> c \<le> 1"
  by (cases r) auto

lemma scale_255:
  assumes "0 \<le> c" "c \<le> 1"
  shows "\<exists>v. fmul (Finite c) (Finite 255) = Finite v \<and> 0 \<le> v \<and> v \<le> 255"
proof -
  have "0 \<le> c * 255" "c * 255 \<le> of_nat 255" using assms by simp_all
  from round32_bounded [OF this] show ?thesis by simp
qed

lemma one_minus_unit:
  assumes "0 \<le> c" "c \<le> 1"
  shows "\<exists>v. fsub (Finite 1) (Finite c) = Finite v \<and> 0 \<le> v \<and> v \<le> 1"
proof -
  have "0 \<le> 1 + - c" "1 + - c \<le> of_nat 1" using assms by simp_all
  from round32_bounded [OF this] show ?thesis by (simp add: fsub_def)
qed


lemma c_trunc_byte:
  assumes "0 \<le> v" "v \<le> 255"
  shows "0 \<le> c_trunc v" "c_trunc v \<le> 255"
  using assms by (auto simp: c_trunc_def floor_le_iff le_floor_iff)

lemma water_rgb_unit:
  "\<exists>r g b. water_rgb height = (Finite r, Finite g, Finite b)
     \<and> 0 \<le> r \<and> r \<le> 1 \<and> 0 \<le> g \<and> g \<le> 1 \<and> 0 \<le> b \<and> b \<le> 1"
proof -
  obtain r' g' b' where "water_rgb height
      = (fminf (fmaxf r' (Finite 0)) (Finite 1), fminf (fmaxf g' (Finite 0)) (Finite 1),
         fminf (fmaxf b' (Finite 0)) (Finite 1))"
    unfolding water_rgb_def Let_def f32_values by blast
  then show ?thesis
    using clamp_unit_float [of r'] clamp_unit_float [of g'] clamp_unit_float [of b'] by auto
qed

lemma channel_conversion:
  assumes "0 \<le> c" "c \<le> 1"
  shows "\<exists>v. fmul (Finite c) (f32 255) = Finite v \<and> 0 \<le> v \<and> v \<le> 255
           \<and> to_uint32 (Finite v) = Some (word_of_int (c_trunc v))
           \<and> to_uint8 (Finite v) = Some (word_of_int (c_trunc v))"
proof -
  obtain v where v: "fmul (Finite c) (Finite 255) = Finite v" "0 \<le> v" "v \<le> 255"
    using scale_255 [OF assms] by blast
  then show ?thesis
    by (simp add: f32_values to_uint32_def to_uint8_def)
qed

lemma bw_intensity_unit:
  "\<exists>c. bw_intensity height = Finite c \<and> 0 \<le> c \<and> c \<le> 1"
proof -
  obtain i where "bw_intensity height = fminf (fmaxf i (Finite 0)) (Finite 1)"
    unfolding bw_intensity_def Let_def f32_values by blast
  then show ?thesis using clamp_unit_float [of i] by simp
qed

text \<open>
  The tri-channel mapper is sound. For every input of \<^verbatim>\<open>water_color\<close>, finite or
  not: the three products \<^verbatim>\<open>r * 255\<close>, \<^verbatim>\<open>g * 255\<close>, \<^verbatim>\<open>b * 255\<close> are finite floats in
  0..255, their conversions to \<^verbatim>\<open>uint32_t\<close> are defined, and the packed pixel has alpha
  byte \<open>0xFF\<close> and exactly those three values as its colour bytes.
\<close>

lemma water_color_bounded:
  "case water_rgb height of (r, g, b) \<Rightarrow>
     (\<exists>vr vg vb. fmul r (f32 255) = Finite vr \<and> fmul g (f32 255) = Finite vg
         \<and> fmul b (f32 255) = Finite vb
         \<and> 0 \<le> vr \<and> vr \<le> 255 \<and> 0 \<le> vg \<and> vg \<le> 255 \<and> 0 \<le> vb \<and> vb \<le> 255
         \<and> (\<exists>w. water_color height x y time = Some w \<and> alpha_of w = 0xFF
               \<and> uint (red_of w) = c_trunc vr
               \<and> uint (green_of w) = c_trunc vg
               \<and> uint (blue_of w) = c_trunc vb))"
proof -
  obtain r g b where rgb: "water_rgb height = (Finite r, Finite g, Finite b)"
    and u: "0 \<le> r" "r \<le> 1" "0 \<le> g" "g \<le> 1" "0 \<le> b" "b \<le> 1"
    using water_rgb_unit [of height] by blast
  obtain vr where vr: "fmul (Finite r) (f32 255) = Finite vr" "0 \<le> vr" "vr \<le> 255"
      "to_uint32 (Finite vr) = Some (word_of_int (c_trunc vr))"
    using channel_conversion [OF u(1,2)] by blast
  obtain vg where vg: "fmul (Finite g) (f32 255) = Finite vg" "0 \<le> vg" "vg \<le> 255"
      "to_uint32 (Finite vg) = Some (word_of_int (c_trunc vg))"
    using channel_conversion [OF u(3,4)] by blast
  obtain vb where vb: "fmul (Finite b) (f32 255) = Finite vb" "0 \<le> vb" "vb \<le> 255"
      "to_uint32 (Finite vb) = Some (word_of_int (c_trunc vb))"
    using channel_conversion [OF u(5,6)] by blast
  define R G B :: "32 word" where "R = word_of_int (c_trunc vr)"
    and "G = word_of_int (c_trunc vg)" and "B = word_of_int (c_trunc vb)"
  have small: "take_bit 8 R = R" "take_bit 8 G = G" "take_bit 8 B = B"
    unfolding R_def G_def B_def using vr vg vb by (simp_all add: byte_word32 c_trunc_byte)
  have val: "uint R = c_trunc vr" "uint G = c_trunc vg" "uint B = c_trunc vb"
    unfolding R_def G_def B_def using vr vg vb by (simp_all add: byte_word32 c_trunc_byte)
  have "water_color height x y time = Some (push_bit 16 R OR push_bit 8 G OR B OR 0xFF000000)"
    by (simp add: water_color_def rgb vr vg vb R_def G_def B_def)
  then have "\<exists>w. water_color height x y time = Some w \<and> alpha_of w = 0xFF
               \<and> uint (red_of w) = c_trunc vr
               \<and> uint (green_of w) = c_trunc vg
               \<and> uint (blue_of w) = c_trunc vb"
    using pack_bits [OF small] val by simp
  with vr vg vb show ?thesis
    unfolding rgb by simp
qed

text \<open>
  Two pixels: at height 0 the base tint, channels 25, 51 and 102; at height 0.5 foam and
  light give 235, 249 and 255.
\<close>

lemma water_color_examples:
  "water_color (Finite 0) x y t = Some 0xFF193366"
  "water_color (Finite (1 / 2)) x y t = Some 0xFFEBF9FF"
  by code_simp+

text \<open>
  In \<^verbatim>\<open>bw_water_color\<close> the grey value is sound as well: for every input the product
  \<^verbatim>\<open>(1.0f - intensity) * 255\<close> is a finite float in 0..255 and its conversion to
  \<^verbatim>\<open>uint8_t\<close> is defined.
\<close>

lemma bw_grey_bounded:
  "\<exists>v. fmul (fsub (f32 1) (bw_intensity height)) (f32 255) = Finite v \<and> 0 \<le> v \<and> v \<le> 255
      \<and> bw_grey height = Some (word_of_int (c_trunc v))"
proof -
  obtain c where c: "bw_intensity height = Finite c" "0 \<le> c" "c \<le> 1"
    using bw_intensity_unit [of height] by blast
  obtain d where d: "fsub (Finite 1) (Finite c) = Finite d" "0 \<le> d" "d \<le> 1"
    using one_minus_unit [OF c(2,3)] by blast
  obtain v where v: "fmul (Finite d) (f32 255) = Finite v" "0 \<le> v" "v \<le> 255"
      "to_uint8 (Finite v) = Some (word_of_int (c_trunc v))"
    using channel_conversion [OF d(2,3)] by blast
  then show ?thesis
    by (simp add: bw_grey_def c d f32_values(2))
qed

text \<open>
  At the large magnitudes the intermediate values leave the finite range and the clamp
  brings them back: for \<open>height = 2 ^ 127\<close> both \<^verbatim>\<open>fabsf(height) * 3.0f\<close> and the foam term
  are infinite, their difference is a NaN, \<^verbatim>\<open>fmaxf\<close> turns it into 0 and the grey value
  is 255.
\<close>

lemma bw_grey_large:
  "fmul (fabsf (Finite (2 ^ 127))) (f32 3) = PInf"
  "bw_intensity (Finite (2 ^ 127)) = Finite 0"
  "bw_grey (Finite (2 ^ 127)) = Some 255"
  by code_simp+

section \<open>Injection: guarded and degenerate cases\<close>

text \<open>
  Claim C4. A point injection whose coordinate lies on the border row or column, or outside
  the grid altogether, returns without a fault and leaves the whole field (both buffers and
  the damping factor) as it was. This holds for the narrow injection of \<^verbatim>\<open>gridfluid.c\<close>
  and \<^verbatim>\<open>realfluid.c\<close> and for the wide injection of \<^verbatim>\<open>fluid.c\<close>.
\<close>

theorem injection_containment:
  assumes "x = 0 \<or> x = W - 1 \<or> y = 0 \<or> y = H - 1 \<or> \<not> in_grid W H x y"
  shows "add_disturbance W H fluid x y intensity = Some fluid
       \<and> fluid_add_disturbance W H fluid x y intensity = Some fluid"
proof -
  have "\<not> (1 \<le> x \<and> x < W - 1 \<and> 1 \<le> y \<and> y < H - 1)"
    using assms by (auto simp: in_grid_def)
  then show ?thesis
    by (simp only: add_disturbance_def fluid_add_disturbance_def if_not_P simp_thms)
qed

theorem injection_containment_witness:
  "((0::int) = 0 \<or> (0::int) = 10 - 1 \<or> (5::int) = 0 \<or> (5::int) = 10 - 1 \<or> \<not> in_grid 10 10 0 5)
   \<and> add_disturbance 10 10 (init_fluid 10 10) 0 5 3 = Some (init_fluid 10 10)
   \<and> fluid_add_disturbance 10 10 (init_fluid 10 10) 0 5 3 = Some (init_fluid 10 10)"
  using injection_containment [of 0 10 5 10 "init_fluid 10 10" 3] by simp

text \<open>
  Claim C7. When the distance that \<^verbatim>\<open>add_continuous_wave\<close> computes between the two
  endpoints is below 1, the endpoints are the same cell and the call is exactly one point
  injection of the given intensity at \<open>(x1, y1)\<close>, in \<^verbatim>\<open>gridfluid.c\<close> and in
  \<^verbatim>\<open>realfluid.c\<close>; on buffers of the grid's size that call returns without a fault.
\<close>

theorem coincident_endpoints_single_point:
  assumes "sqrt (real_of_int (x2 - x1) * real_of_int (x2 - x1)
               + real_of_int (y2 - y1) * real_of_int (y2 - y1)) < 1"
  shows "x2 = x1 \<and> y2 = y1
       \<and> add_continuous_wave W H fluid x1 y1 x2 y2 intensity
           = add_disturbance W H fluid x1 y1 intensity
       \<and> real_add_continuous_wave W H fluid x1 y1 x2 y2 intensity
           = add_disturbance W H fluid x1 y1 intensity
       \<and> (length (previous fluid) = nat (W * H)
            \<longrightarrow> add_continuous_wave W H fluid x1 y1 x2 y2 intensity \<noteq> None
              \<and> real_add_continuous_wave W H fluid x1 y1 x2 y2 intensity \<noteq> None)"
proof -
  let ?dx = "x2 - x1" and ?dy = "y2 - y1"
  have "real_of_int ?dx * real_of_int ?dx + real_of_int ?dy * real_of_int ?dy < 1"
    using assms by (simp add: real_sqrt_lt_1_iff)
  then have "real_of_int (?dx * ?dx + ?dy * ?dy) < real_of_int 1"
    by simp
  then have small: "?dx * ?dx + ?dy * ?dy < 1"
    by (simp only: of_int_less_iff)
  have "0 \<le> ?dx * ?dx" "0 \<le> ?dy * ?dy" by simp_all
  with small have "?dx * ?dx = 0" "?dy * ?dy = 0" by linarith+
  then have same: "x2 = x1" "y2 = y1" by simp_all
  have grid: "add_continuous_wave W H fluid x1 y1 x2 y2 intensity
                = add_disturbance W H fluid x1 y1 intensity"
    using assms by (simp add: add_continuous_wave_def Let_def)
  have rl: "real_add_continuous_wave W H fluid x1 y1 x2 y2 intensity
                = add_disturbance W H fluid x1 y1 intensity"
    using assms by (simp add: real_add_continuous_wave_def Let_def)
  have "add_disturbance W H fluid x1 y1 intensity \<noteq> None"
    if "length (previous fluid) = nat (W * H)"
  proof (cases "1 \<le> x1 \<and> x1 < W - 1 \<and> 1 \<le> y1 \<and> y1 < H - 1")
    case True
    then show ?thesis using add_disturbance_inside [OF that, of x1 y1 intensity] by simp
  next
    case False
    then show ?thesis by (simp add: add_disturbance_outside)
  qed
  with same grid rl show ?thesis by simp
qed

theorem coincident_endpoints_single_point_witness:
  "sqrt (real_of_int (5 - 5) * real_of_int (5 - 5)
       + real_of_int (5 - 5) * real_of_int (5 - 5)) < 1
   \<and> length (previous (init_fluid 10 10)) = nat (10 * 10)
   \<and> add_continuous_wave 10 10 (init_fluid 10 10) 5 5 5 5 10
       = add_disturbance 10 10 (init_fluid 10 10) 5 5 10
   \<and> real_add_continuous_wave 10 10 (init_fluid 10 10) 5 5 5 5 10
       = add_disturbance 10 10 (init_fluid 10 10) 5 5 10
   \<and> add_continuous_wave 10 10 (init_fluid 10 10) 5 5 5 5 10 \<noteq> None
   \<and> real_add_continuous_wave 10 10 (init_fluid 10 10) 5 5 5 5 10 \<noteq> None"
proof -
  have h: "sqrt (real_of_int (5 - 5) * real_of_int (5 - 5)
               + real_of_int (5 - 5) * real_of_int (5 - 5)) < 1"
    by simp
  have l: "length (previous (init_fluid 10 10)) = nat (10 * 10)"
    by (simp add: init_fluid_def)
  from coincident_endpoints_single_point [OF h, of 10 10 "init_fluid 10 10" 10] h l
  show ?thesis by blast
qed


text \<open>
  Claim C10. \<^verbatim>\<open>water_color\<close> ignores its \<^verbatim>\<open>x\<close>, \<^verbatim>\<open>y\<close> and \<^verbatim>\<open>time\<close> arguments: two
  calls with the same height return the same pixel.
\<close>

theorem water_color_height_only:
  "water_color height x y time = water_color height x' y' time'"
  by (simp add: water_color_def)

end
